theory Spec2Isabelle
  imports Complex_Main
begin

section \<open>Neon-Pacman: the simulation core of GameCanvas.tsx\<close>

text \<open>
  The component keeps its simulation state in mutable refs and advances it once per
  animation frame. The embedding below follows \<^verbatim>\<open>src/components/GameCanvas.tsx\<close>
  function by function. JavaScript numbers are modelled as rationals: every coordinate
  the program computes is a multiple of one half (tile centres, speeds 3, 2 and 1.5),
  so the floating point arithmetic of the source is exact on them.
\<close>

subsection \<open>types.ts and constants.ts\<close>

datatype Direction = UP | DOWN | LEFT | RIGHT | NONE

datatype Mode = SCATTER | CHASE | FRIGHTENED | EATEN

datatype Status = PLAYING | IDLE | PAUSED | GAMEOVER | WON

record Point =
  x :: rat
  y :: rat

record Entity = Point +
  dir :: Direction
  nextDir :: Direction
  speed :: rat

record Ghost = Entity +
  color :: string
  mode :: Mode
  ghostId :: nat

definition TILE_SIZE :: rat where
  "TILE_SIZE = 24"

definition PACMAN_SPEED :: rat where
  "PACMAN_SPEED = 3"

definition GHOST_SPEED :: rat where
  "GHOST_SPEED = 2"

definition FRIGHTENED_SPEED :: rat where
  "FRIGHTENED_SPEED = 3 / 2"

definition GHOST_COLORS :: "string list" where
  "GHOST_COLORS = [''#ef4444'', ''#ec4899'', ''#06b6d4'', ''#f97316'']"

subsection \<open>Grid access\<close>

text \<open>
  \<^verbatim>\<open>grid[r][c]\<close> on a row shorter than \<open>c\<close> is \<^verbatim>\<open>undefined\<close> in JavaScript;
  \<open>charAt\<close> returns \<open>None\<close> there.
\<close>

definition charAt :: "string \<Rightarrow> nat \<Rightarrow> char option" where
  "charAt s i = (if i < length s then Some (s ! i) else None)"

text \<open>
  \<open>isWalkable\<close> (lines 37-43). The bounds test comes first, so \<^verbatim>\<open>grid[0]\<close> is only
  read when the grid has a row.
\<close>

definition isWalkable :: "string list \<Rightarrow> int \<Rightarrow> int \<Rightarrow> bool \<Rightarrow> bool" where
  "isWalkable gd c r includeGate =
     (if r < 0 \<or> r \<ge> int (length gd) \<or> c < 0 \<or> c \<ge> int (length (gd ! 0)) then False
      else let ch = charAt (gd ! nat r) (nat c) in
        if ch = Some CHR ''#'' then False
        else if ch = Some CHR ''-'' \<and> \<not> includeGate then False
        else True)"

subsection \<open>Core logic helpers\<close>

definition getGridPos :: "rat \<Rightarrow> int" where
  "getGridPos p = \<lfloor>p / TILE_SIZE\<rfloor>"

text \<open>The remainder operator \<^verbatim>\<open>%\<close> of JavaScript truncates towards zero.\<close>

definition truncate_rat :: "rat \<Rightarrow> int" where
  "truncate_rat q = (if 0 \<le> q then \<lfloor>q\<rfloor> else \<lceil>q\<rceil>)"

definition js_rem :: "rat \<Rightarrow> rat \<Rightarrow> rat" where
  "js_rem a b = a - b * of_int (truncate_rat (a / b))"

definition isCentered :: "rat \<Rightarrow> bool" where
  "isCentered val = (\<bar>js_rem val TILE_SIZE - TILE_SIZE / 2\<bar> < 2)"

text \<open>
  \<open>canMove\<close> (lines 137-153). The result is \<open>None\<close> when the source throws a
  TypeError: \<^verbatim>\<open>grid[0].length\<close> on an empty grid, which is only evaluated when
  \<^verbatim>\<open>nextCol < 0\<close> is false.
\<close>

definition canMove :: "string list \<Rightarrow> rat \<Rightarrow> rat \<Rightarrow> Direction \<Rightarrow> bool \<Rightarrow> bool option" where
  "canMove gd a b d isGhost =
     (let col = getGridPos a;
          row = getGridPos b;
          nextRow = (if d = UP then row - 1 else if d = DOWN then row + 1 else row);
          nextCol = (if d = LEFT then col - 1 else if d = RIGHT then col + 1 else col)
      in if nextCol < 0 then Some True
         else (case gd of
                 [] \<Rightarrow> None
               | row0 # _ \<Rightarrow>
                   if nextCol \<ge> int (length row0) then Some True
                   else Some (isWalkable gd nextCol nextRow isGhost)))"

subsection \<open>moveEntity (lines 155-188)\<close>

text \<open>
  The function is given in its three blocks. \<open>turnEntity\<close> is the attempt to change
  direction (lines 157-165), \<open>stepEntity\<close> the displacement (lines 179-182) and
  \<open>wrapEntity\<close> the tunnel (lines 185-187); \<open>moveEntity\<close> puts them together with
  the two early returns of the source. The argument \<open>modeOf\<close> is the property read
  \<^verbatim>\<open>(entity as Ghost).mode\<close>: the mode of a ghost, \<open>None\<close> (undefined) on the player.
\<close>

definition snapToCenter :: "rat \<Rightarrow> rat" where
  "snapToCenter p = of_int (getGridPos p) * TILE_SIZE + TILE_SIZE / 2"

definition turnEntity :: "string list \<Rightarrow> bool \<Rightarrow> 'a Entity_scheme \<Rightarrow> 'a Entity_scheme option" where
  "turnEntity gd isGhost e =
     (if nextDir e \<noteq> NONE \<and> isCentered (x e) \<and> isCentered (y e) then
        (case canMove gd (x e) (y e) (nextDir e) isGhost of
           None \<Rightarrow> None
         | Some ok \<Rightarrow>
             if ok then
               Some (e\<lparr>dir := nextDir e, nextDir := NONE,
                       x := snapToCenter (x e), y := snapToCenter (y e)\<rparr>)
             else Some e)
      else Some e)"

definition stepEntity :: "rat \<Rightarrow> 'a Entity_scheme \<Rightarrow> 'a Entity_scheme" where
  "stepEntity moveSpeed e =
     (if dir e = UP then e\<lparr>y := y e - moveSpeed\<rparr>
      else if dir e = DOWN then e\<lparr>y := y e + moveSpeed\<rparr>
      else if dir e = LEFT then e\<lparr>x := x e - moveSpeed\<rparr>
      else if dir e = RIGHT then e\<lparr>x := x e + moveSpeed\<rparr>
      else e)"

definition wrapEntity :: "rat \<Rightarrow> 'a Entity_scheme \<Rightarrow> 'a Entity_scheme" where
  "wrapEntity mapWidth e =
     (let e1 = (if x e < - TILE_SIZE / 2 then e\<lparr>x := mapWidth + TILE_SIZE / 2\<rparr> else e)
      in if x e1 > mapWidth + TILE_SIZE / 2 then e1\<lparr>x := - TILE_SIZE / 2\<rparr> else e1)"

definition aheadFree :: "string list \<Rightarrow> bool \<Rightarrow> 'a Entity_scheme \<Rightarrow> bool option" where
  "aheadFree gd isGhost e =
     (if isCentered (x e) \<and> isCentered (y e) then canMove gd (x e) (y e) (dir e) isGhost
      else Some True)"

definition moveEntity ::
  "string list \<Rightarrow> ('a Entity_scheme \<Rightarrow> Mode option) \<Rightarrow> 'a Entity_scheme \<Rightarrow> bool \<Rightarrow> 'a Entity_scheme option" where
  "moveEntity gd modeOf entity isGhost =
     (case turnEntity gd isGhost entity of
        None \<Rightarrow> None
      | Some e \<Rightarrow>
          if dir e = NONE then Some e
          else (case aheadFree gd isGhost e of
                  None \<Rightarrow> None
                | Some free \<Rightarrow>
                    if \<not> free then Some e
                    else
                      let moveSpeed = (if isGhost \<and> modeOf e = Some FRIGHTENED
                                       then FRIGHTENED_SPEED else speed e);
                          e1 = stepEntity moveSpeed e
                      in (case gd of
                            [] \<Rightarrow> None
                          | row0 # _ \<Rightarrow> Some (wrapEntity (of_nat (length row0) * TILE_SIZE) e1))))"

subsection \<open>updateGhosts (lines 190-235)\<close>

text \<open>
  The three calls of \<^verbatim>\<open>Math.random()\<close> in the decision of one ghost are the three
  fields of \<open>Rand\<close>; \<open>validRand\<close> is the contract of \<^verbatim>\<open>Math.random\<close>, a number
  in [0, 1).
\<close>

record Rand =
  chaseRoll :: rat
  mixRoll :: rat
  pickRoll :: rat

definition validRand :: "Rand \<Rightarrow> bool" where
  "validRand r =
     (0 \<le> chaseRoll r \<and> chaseRoll r < 1 \<and> 0 \<le> mixRoll r \<and> mixRoll r < 1
      \<and> 0 \<le> pickRoll r \<and> pickRoll r < 1)"

definition possibleDirs :: "Direction list" where
  "possibleDirs = [UP, DOWN, LEFT, RIGHT]"

fun opposite :: "Direction \<Rightarrow> Direction" where
  "opposite UP = DOWN"
| "opposite DOWN = UP"
| "opposite LEFT = RIGHT"
| "opposite RIGHT = LEFT"
| "opposite NONE = NONE"

text \<open>\<^verbatim>\<open>Array.filter\<close> with a predicate that may throw.\<close>

fun filterThrowing :: "('a \<Rightarrow> bool option) \<Rightarrow> 'a list \<Rightarrow> 'a list option" where
  "filterThrowing p [] = Some []"
| "filterThrowing p (a # as) =
     (case p a of
        None \<Rightarrow> None
      | Some keep \<Rightarrow>
          (case filterThrowing p as of
             None \<Rightarrow> None
           | Some rest \<Rightarrow> Some (if keep then a # rest else rest)))"

text \<open>
  The comparator of the Chase sort orders two headings by \<^verbatim>\<open>Math.hypot\<close> of the
  simulated position to the player. The square root is monotone, so the squared distance
  is the sort key here; \<^verbatim>\<open>Array.sort\<close> is stable, and so is \<open>sort_key\<close>.
\<close>

definition chaseKey :: "'a Point_scheme \<Rightarrow> 'b Point_scheme \<Rightarrow> Direction \<Rightarrow> rat" where
  "chaseKey pac ghost d =
     (let ax = (if d = LEFT then x ghost - TILE_SIZE
                else if d = RIGHT then x ghost + TILE_SIZE else x ghost);
          ay = (if d = UP then y ghost - TILE_SIZE
                else if d = DOWN then y ghost + TILE_SIZE else y ghost)
      in (ax - x pac)\<^sup>2 + (ay - y pac)\<^sup>2)"

text \<open>The candidate headings of a ghost: \<^verbatim>\<open>choices\<close> before the optional sort.\<close>

definition ghostChoices :: "Direction list \<Rightarrow> Ghost \<Rightarrow> Direction list" where
  "ghostChoices validDirs ghost =
     (let nonReverseDirs = filter (\<lambda>d. d \<noteq> opposite (dir ghost)) validDirs
      in if length nonReverseDirs > 0 then nonReverseDirs else validDirs)"

text \<open>The decision of one ghost (lines 193-232), taken only when it is centered.\<close>

definition decideGhost :: "string list \<Rightarrow> 'a Point_scheme \<Rightarrow> Rand \<Rightarrow> Ghost \<Rightarrow> Ghost option" where
  "decideGhost gd pac rnd ghost =
     (if isCentered (x ghost) \<and> isCentered (y ghost) then
        (case filterThrowing (\<lambda>d. canMove gd (x ghost) (y ghost) d True) possibleDirs of
           None \<Rightarrow> None
         | Some validDirs \<Rightarrow>
             let choices0 = ghostChoices validDirs ghost;
                 choices = (if mode ghost = CHASE \<and> chaseRoll rnd > 3 / 10
                            then sort_key (chaseKey pac ghost) choices0 else choices0)
             in if length choices > 0 then
                  (if length choices > 1 \<and> mixRoll rnd < 1 / 5
                   then Some (ghost\<lparr>dir := choices ! nat \<lfloor>pickRoll rnd * of_nat (length choices)\<rfloor>\<rparr>)
                   else Some (ghost\<lparr>dir := choices ! 0\<rparr>))
                else Some (ghost\<lparr>dir := opposite (dir ghost)\<rparr>))
      else Some ghost)"

definition updateGhost :: "string list \<Rightarrow> 'a Point_scheme \<Rightarrow> Rand \<Rightarrow> Ghost \<Rightarrow> Ghost option" where
  "updateGhost gd pac rnd ghost =
     (case decideGhost gd pac rnd ghost of
        None \<Rightarrow> None
      | Some g \<Rightarrow> moveEntity gd (\<lambda>e. Some (mode e)) g True)"

text \<open>
  \<^verbatim>\<open>ghostsRef.current.forEach\<close>: the ghosts in order; the ghost at index \<open>i\<close> draws
  its random numbers from \<open>rnd i\<close>.
\<close>

fun updateGhostsFrom ::
  "string list \<Rightarrow> 'a Point_scheme \<Rightarrow> (nat \<Rightarrow> Rand) \<Rightarrow> nat \<Rightarrow> Ghost list \<Rightarrow> Ghost list option" where
  "updateGhostsFrom gd pac rnd i [] = Some []"
| "updateGhostsFrom gd pac rnd i (g # gs) =
     (case updateGhost gd pac (rnd i) g of
        None \<Rightarrow> None
      | Some g' \<Rightarrow>
          (case updateGhostsFrom gd pac rnd (Suc i) gs of
             None \<Rightarrow> None
           | Some gs' \<Rightarrow> Some (g' # gs')))"

definition updateGhosts ::
  "string list \<Rightarrow> 'a Point_scheme \<Rightarrow> (nat \<Rightarrow> Rand) \<Rightarrow> Ghost list \<Rightarrow> Ghost list option" where
  "updateGhosts gd pac rnd ghosts = updateGhostsFrom gd pac rnd 0 ghosts"

subsection \<open>The state of the component\<close>

text \<open>
  The refs of the component (lines 25-34), its props \<open>grid\<close> and \<open>gameState\<close>
  (state of \<^verbatim>\<open>App\<close>), and the timeouts the browser holds: \<^verbatim>\<open>window.setTimeout\<close>
  returns a fresh positive handle and keeps the callback pending until it fires or
  \<^verbatim>\<open>clearTimeout\<close> removes it. The only timeout this program sets is the
  frightened timer, so every pending callback is the one of lines 264-266.
\<close>

record Game =
  grid :: "string list"
  gameState :: Status
  pacmanRef :: Entity
  ghostsRef :: "Ghost list"
  pelletsRef :: "Point list"
  powerPelletsRef :: "Point list"
  wallsRef :: "Point list"
  gateRef :: "Point option"
  scoreRef :: int
  livesRef :: int
  frightenedTimerRef :: "nat option"
  pendingTimeouts :: "nat list"
  nextTimeout :: nat

text \<open>The calls to the host: \<^verbatim>\<open>onScoreUpdate\<close>, \<^verbatim>\<open>onLivesUpdate\<close>, \<^verbatim>\<open>onGameOver\<close>.\<close>

datatype Callback = OnScoreUpdate int | OnLivesUpdate int | OnGameOver bool

subsection \<open>initLevel (lines 46-107) and initLevelPosOnly (lines 308-331)\<close>

text \<open>
  The tiles of the grid in the order of the two nested \<^verbatim>\<open>forEach\<close> loops, each with
  its row and column.
\<close>

definition tiles :: "string list \<Rightarrow> (nat \<times> nat \<times> char) list" where
  "tiles gd =
     concat (map (\<lambda>(r, row). map (\<lambda>(c, ch). (r, c, ch)) (enumerate 0 row)) (enumerate 0 gd))"

definition tileCenter :: "nat \<Rightarrow> nat \<Rightarrow> Point" where
  "tileCenter c r =
     \<lparr>x = of_nat c * TILE_SIZE + TILE_SIZE / 2, y = of_nat r * TILE_SIZE + TILE_SIZE / 2\<rparr>"

definition centersOf :: "char \<Rightarrow> string list \<Rightarrow> Point list" where
  "centersOf k gd = map (\<lambda>(r, c, ch). tileCenter c r) (filter (\<lambda>(r, c, ch). ch = k) (tiles gd))"

definition wallsOf :: "string list \<Rightarrow> Point list" where
  "wallsOf gd =
     map (\<lambda>(r, c, ch). \<lparr>x = of_nat c, y = of_nat r\<rparr>) (filter (\<lambda>(r, c, ch). ch = CHR ''#'') (tiles gd))"

text \<open>A variable assigned at every matching tile holds the last match, or stays as it was.\<close>

definition lastOr :: "'a \<Rightarrow> 'a list \<Rightarrow> 'a" where
  "lastOr d ps = (case ps of [] \<Rightarrow> d | _ # _ \<Rightarrow> last ps)"

definition newGhost :: "Point \<Rightarrow> Direction \<Rightarrow> nat \<Rightarrow> Ghost" where
  "newGhost start d i =
     \<lparr>x = x start, y = y start, dir = d, nextDir = NONE, speed = GHOST_SPEED,
      color = GHOST_COLORS ! (i mod length GHOST_COLORS), mode = SCATTER, ghostId = i\<rparr>"

definition initLevel :: "Game \<Rightarrow> Game" where
  "initLevel s =
     (let gd = grid s in
      if length gd = 0 then s
      else
        let pStart = lastOr \<lparr>x = 1, y = 1\<rparr> (centersOf CHR ''P'' gd);
            gFound = centersOf CHR ''G'' gd;
            gStarts = (if length gFound = 0
                       then [\<lparr>x = x pStart, y = y pStart - TILE_SIZE * 2\<rparr>] else gFound);
            mapped = map (\<lambda>(i, start). newGhost start ([LEFT, RIGHT] ! (i mod 2)) i)
                         (enumerate 0 gStarts);
            filled = mapped @ map (\<lambda>i. newGhost (gStarts ! 0) UP i) [length mapped..<4]
        in s\<lparr>gateRef := lastOr (gateRef s) (map Some (centersOf CHR ''-'' gd)),
             pacmanRef := (pacmanRef s)\<lparr>x := x pStart, y := y pStart, dir := NONE, nextDir := NONE\<rparr>,
             ghostsRef := filled,
             pelletsRef := centersOf CHR ''.'' gd,
             powerPelletsRef := centersOf CHR ''O'' gd,
             wallsRef := wallsOf gd\<rparr>)"

text \<open>
  In \<open>initLevelPosOnly\<close> the index \<^verbatim>\<open>i % gStarts.length\<close> is NaN when there is no
  \<^verbatim>\<open>G\<close> tile, the read is \<^verbatim>\<open>undefined\<close>, and \<^verbatim>\<open>|| pStart\<close> takes over.
\<close>

definition initLevelPosOnly :: "Game \<Rightarrow> Game" where
  "initLevelPosOnly s =
     (let gd = grid s;
          pStart = lastOr \<lparr>x = TILE_SIZE * 10, y = TILE_SIZE * 15\<rparr> (centersOf CHR ''P'' gd);
          gStarts = centersOf CHR ''G'' gd
      in s\<lparr>pacmanRef := (pacmanRef s)\<lparr>x := x pStart, y := y pStart, dir := NONE, nextDir := NONE\<rparr>,
           ghostsRef :=
             map (\<lambda>(i, g).
                    let start = (if length gStarts = 0 then pStart
                                 else gStarts ! (i mod length gStarts))
                    in g\<lparr>x := x start, y := y start, mode := SCATTER\<rparr>)
                 (enumerate 0 (ghostsRef s))\<rparr>)"

text \<open>The effect of lines 110-116: it runs on mount and whenever grid or resetSignal change.\<close>

definition resetRound :: "Game \<Rightarrow> Game" where
  "resetRound s = (initLevel s)\<lparr>scoreRef := 0, livesRef := 3\<rparr>"

subsection \<open>checkCollisions (lines 237-306)\<close>

text \<open>
  \<^verbatim>\<open>Math.hypot(dx, dy) < r\<close> for a radius \<open>r\<close> that is not negative, decided on the
  squares. The radii are 12 and \<^verbatim>\<open>TILE_SIZE * 0.8\<close>; the latter is 19.2 up to the
  rounding of the product, and no squared distance of two positions (a multiple of one
  quarter) lies close enough to its square for the rounding to matter.
\<close>

definition hypotLess :: "rat \<Rightarrow> rat \<Rightarrow> rat \<Rightarrow> bool" where
  "hypotLess dx dy r = (dx\<^sup>2 + dy\<^sup>2 < r\<^sup>2)"

fun filterPellets :: "rat \<Rightarrow> rat \<Rightarrow> Point list \<Rightarrow> Game \<times> bool \<Rightarrow> Point list \<times> Game \<times> bool" where
  "filterPellets pacX pacY [] acc = ([], acc)"
| "filterPellets pacX pacY (p # ps) (s, eaten) =
     (if hypotLess (x p - pacX) (y p - pacY) (TILE_SIZE / 2)
      then filterPellets pacX pacY ps (s\<lparr>scoreRef := scoreRef s + 10\<rparr>, True)
      else (case filterPellets pacX pacY ps (s, eaten) of (kept, acc) \<Rightarrow> (p # kept, acc)))"

definition clearTimeout :: "nat option \<Rightarrow> nat list \<Rightarrow> nat list" where
  "clearTimeout h pending = (case h of None \<Rightarrow> pending | Some t \<Rightarrow> removeAll t pending)"

text \<open>The body of the power pellet hit (lines 259-266); a handle is truthy when not 0.\<close>

definition powerPelletHit :: "Game \<Rightarrow> Game" where
  "powerPelletHit s =
     (let cleared = (if frightenedTimerRef s \<noteq> None \<and> frightenedTimerRef s \<noteq> Some 0
                     then clearTimeout (frightenedTimerRef s) (pendingTimeouts s)
                     else pendingTimeouts s)
      in s\<lparr>scoreRef := scoreRef s + 50,
           ghostsRef := map (\<lambda>g. g\<lparr>mode := FRIGHTENED\<rparr>) (ghostsRef s),
           pendingTimeouts := nextTimeout s # cleared,
           frightenedTimerRef := Some (nextTimeout s),
           nextTimeout := Suc (nextTimeout s)\<rparr>)"

fun filterPowerPellets :: "rat \<Rightarrow> rat \<Rightarrow> Point list \<Rightarrow> Game \<times> bool \<Rightarrow> Point list \<times> Game \<times> bool" where
  "filterPowerPellets pacX pacY [] acc = ([], acc)"
| "filterPowerPellets pacX pacY (p # ps) (s, eaten) =
     (if hypotLess (x p - pacX) (y p - pacY) (TILE_SIZE / 2)
      then filterPowerPellets pacX pacY ps (powerPelletHit s, True)
      else (case filterPowerPellets pacX pacY ps (s, eaten) of (kept, acc) \<Rightarrow> (p # kept, acc)))"

text \<open>The callback of the frightened timer (line 265).\<close>

definition frightenedExpiry :: "Game \<Rightarrow> Game" where
  "frightenedExpiry s = s\<lparr>ghostsRef := map (\<lambda>g. g\<lparr>mode := SCATTER\<rparr>) (ghostsRef s)\<rparr>"

text \<open>Pellets and power pellets (lines 239-272): the state and the calls made so far.\<close>

definition consume :: "Game \<Rightarrow> Game \<times> Callback list" where
  "consume s =
     (let pacX = x (pacmanRef s);
          pacY = y (pacmanRef s)
      in case filterPellets pacX pacY (pelletsRef s) (s, False) of
           (pellets, s1, eaten1) \<Rightarrow>
             (case filterPowerPellets pacX pacY (powerPelletsRef s1) (s1\<lparr>pelletsRef := pellets\<rparr>, eaten1) of
                (powerPellets, s2, eaten2) \<Rightarrow>
                  let s3 = s2\<lparr>powerPelletsRef := powerPellets\<rparr>
                  in (s3, if eaten2 then [OnScoreUpdate (scoreRef s3)] else [])))"

definition orDefault :: "rat option \<Rightarrow> rat \<Rightarrow> rat" where
  "orDefault v d = (case v of None \<Rightarrow> d | Some a \<Rightarrow> if a = 0 then d else a)"

text \<open>One iteration of the loop over the ghosts (lines 282-304), for the ghost at index \<open>i\<close>.\<close>

definition collideGhost :: "rat \<Rightarrow> rat \<Rightarrow> nat \<Rightarrow> Game \<times> Callback list \<Rightarrow> Game \<times> Callback list" where
  "collideGhost pacX pacY i acc =
     (case acc of (s, calls) \<Rightarrow>
        let ghost = ghostsRef s ! i in
        if hypotLess (x ghost - pacX) (y ghost - pacY) (TILE_SIZE * (4 / 5)) then
          if mode ghost = FRIGHTENED then
            let s1 = s\<lparr>scoreRef := scoreRef s + 200\<rparr>;
                gx = orDefault (map_option x (gateRef s1)) (TILE_SIZE * 10);
                gy = orDefault (map_option y (gateRef s1)) (TILE_SIZE * 10) + TILE_SIZE
            in (s1\<lparr>ghostsRef := (ghostsRef s1)[i := ghost\<lparr>x := gx, y := gy, mode := SCATTER\<rparr>]\<rparr>,
                calls @ [OnScoreUpdate (scoreRef s1)])
          else if mode ghost \<noteq> EATEN then
            let s1 = s\<lparr>livesRef := livesRef s - 1\<rparr>;
                calls1 = calls @ [OnLivesUpdate (livesRef s1)]
            in if livesRef s1 \<le> 0 then (s1, calls1 @ [OnGameOver False])
               else (initLevelPosOnly s1, calls1)
          else (s, calls)
        else (s, calls))"

definition ghostCollisions :: "rat \<Rightarrow> rat \<Rightarrow> Game \<times> Callback list \<Rightarrow> Game \<times> Callback list" where
  "ghostCollisions pacX pacY acc =
     fold (collideGhost pacX pacY) [0..<length (ghostsRef (fst acc))] acc"

definition checkCollisions :: "Game \<Rightarrow> Game \<times> Callback list" where
  "checkCollisions s =
     (let pacX = x (pacmanRef s);
          pacY = y (pacmanRef s)
      in case consume s of
           (s3, calls) \<Rightarrow>
             if length (pelletsRef s3) = 0 \<and> length (powerPelletsRef s3) = 0
             then (s3, calls @ [OnGameOver True])
             else ghostCollisions pacX pacY (s3, calls))"

subsection \<open>The frame loop, the input, and the host\<close>

text \<open>
  \<^verbatim>\<open>handleGameOver\<close> of \<^verbatim>\<open>App\<close> sets the status; the score and lives that \<^verbatim>\<open>App\<close>
  displays are copies and are not part of the state here. The status a frame reads is
  the one the last call left.
\<close>

definition handleCallback :: "Callback \<Rightarrow> Game \<Rightarrow> Game" where
  "handleCallback c s =
     (case c of
        OnGameOver won \<Rightarrow> s\<lparr>gameState := (if won then WON else GAMEOVER)\<rparr>
      | OnScoreUpdate n \<Rightarrow> s
      | OnLivesUpdate n \<Rightarrow> s)"

text \<open>The body of \<open>loop\<close> (lines 430-435); \<open>None\<close> when a TypeError ends the frame.\<close>

definition loop :: "(nat \<Rightarrow> Rand) \<Rightarrow> Game \<Rightarrow> Game option" where
  "loop rnd s =
     (if gameState s = PLAYING then
        (case moveEntity (grid s) (\<lambda>e. None) (pacmanRef s) False of
           None \<Rightarrow> None
         | Some pac \<Rightarrow>
             (case updateGhosts (grid s) pac rnd (ghostsRef s) of
                None \<Rightarrow> None
              | Some ghosts \<Rightarrow>
                  (case checkCollisions (s\<lparr>pacmanRef := pac, ghostsRef := ghosts\<rparr>) of
                     (s', calls) \<Rightarrow> Some (fold handleCallback calls s'))))
      else Some s)"

definition handleKeyDown :: "string \<Rightarrow> Game \<Rightarrow> Game" where
  "handleKeyDown key s =
     (if gameState s \<noteq> PLAYING then s
      else if key = ''ArrowUp'' then s\<lparr>pacmanRef := (pacmanRef s)\<lparr>nextDir := UP\<rparr>\<rparr>
      else if key = ''ArrowDown'' then s\<lparr>pacmanRef := (pacmanRef s)\<lparr>nextDir := DOWN\<rparr>\<rparr>
      else if key = ''ArrowLeft'' then s\<lparr>pacmanRef := (pacmanRef s)\<lparr>nextDir := LEFT\<rparr>\<rparr>
      else if key = ''ArrowRight'' then s\<lparr>pacmanRef := (pacmanRef s)\<lparr>nextDir := RIGHT\<rparr>\<rparr>
      else s)"

definition DEFAULT_LEVEL_GRID :: "string list" where
  "DEFAULT_LEVEL_GRID =
    [''#####################'',
     ''#.........#.........#'',
     ''#.###.###.#.###.###.#'',
     ''#O###.###.#.###.###O#'',
     ''#.###.###.#.###.###.#'',
     ''#...................#'',
     ''#.###.#.#####.#.###.#'',
     ''#.###.#.#####.#.###.#'',
     ''#.....#...#...#.....#'',
     ''#####.### # ###.#####'',
     ''    #.# G G G #.#    '',
     ''#####.# #---# #.#####'',
     ''      . #   # .      '',
     ''#####.# ##### #.#####'',
     ''    #.#       #.#    '',
     ''#####.#.#####.#.#####'',
     ''#.........#.........#'',
     ''#.###.###.#.###.###.#'',
     ''#O..#.....P.....#..O#'',
     ''###.#.#####.#####.#.#'',
     ''#.....#.........#...#'',
     ''#####################'']"

text \<open>The component as first rendered by \<^verbatim>\<open>App\<close>, after its effects have run once.\<close>

definition mounted :: Game where
  "mounted =
     resetRound
       \<lparr>grid = DEFAULT_LEVEL_GRID, gameState = IDLE,
        pacmanRef = \<lparr>x = 0, y = 0, dir = NONE, nextDir = NONE, speed = PACMAN_SPEED\<rparr>,
        ghostsRef = [], pelletsRef = [], powerPelletsRef = [], wallsRef = [],
        gateRef = None, scoreRef = 0, livesRef = 3, frightenedTimerRef = None,
        pendingTimeouts = [], nextTimeout = 1\<rparr>"

text \<open>
  \<^verbatim>\<open>startGame\<close> and \<^verbatim>\<open>generateLevel\<close> of \<^verbatim>\<open>App\<close>. A change of grid or resetSignal
  runs the effect of lines 110-116. \<^verbatim>\<open>generateLevel\<close> sets the status before it
  awaits the service, and accepts the answer only if it has more than 5 rows and its
  first row more than 5 tiles.
\<close>

definition startGame :: "Game \<Rightarrow> Game" where
  "startGame s = resetRound (s\<lparr>gameState := PLAYING\<rparr>)"

definition acceptGrid :: "string list \<Rightarrow> Game \<Rightarrow> Game" where
  "acceptGrid newGrid s =
     (if length newGrid > 5 \<and> length (newGrid ! 0) > 5
      then resetRound (s\<lparr>grid := newGrid\<rparr>) else s)"

datatype Event =
    Frame "nat \<Rightarrow> Rand"
  | KeyDown string
  | StartGame
  | PauseGame
  | ResumeGame
  | RequestLevel
  | LevelArrives "string list"
  | TimeoutFires nat

text \<open>
  One event. The start button is rendered unless the status is PLAYING, the pause button
  when it is PLAYING, the resume button when it is PAUSED; a timeout fires only while it
  is pending.
\<close>

definition step :: "Event \<Rightarrow> Game \<Rightarrow> Game option" where
  "step ev s =
     (case ev of
        Frame rnd \<Rightarrow> loop rnd s
      | KeyDown key \<Rightarrow> Some (handleKeyDown key s)
      | StartGame \<Rightarrow> Some (if gameState s \<noteq> PLAYING then startGame s else s)
      | PauseGame \<Rightarrow> Some (if gameState s = PLAYING then s\<lparr>gameState := PAUSED\<rparr> else s)
      | ResumeGame \<Rightarrow> Some (if gameState s = PAUSED then s\<lparr>gameState := PLAYING\<rparr> else s)
      | RequestLevel \<Rightarrow> Some (s\<lparr>gameState := IDLE\<rparr>)
      | LevelArrives newGrid \<Rightarrow> Some (acceptGrid newGrid s)
      | TimeoutFires t \<Rightarrow>
          Some (if t \<in> set (pendingTimeouts s)
                then (frightenedExpiry s)\<lparr>pendingTimeouts := removeAll t (pendingTimeouts s)\<rparr>
                else s))"

fun run :: "Event list \<Rightarrow> Game \<Rightarrow> Game option" where
  "run [] s = Some s"
| "run (ev # evs) s = (case step ev s of None \<Rightarrow> None | Some s' \<Rightarrow> run evs s')"

text \<open>
  The states the program can be in: every frame draws its random numbers from [0, 1).
\<close>

definition validEvent :: "Event \<Rightarrow> bool" where
  "validEvent ev = (case ev of Frame rnd \<Rightarrow> \<forall>i. validRand (rnd i) | _ \<Rightarrow> True)"

inductive reachable :: "Game \<Rightarrow> bool" where
  reachable_mounted: "reachable mounted"
| reachable_step: "reachable s \<Longrightarrow> validEvent ev \<Longrightarrow> step ev s = Some s' \<Longrightarrow> reachable s'"

subsection \<open>Teardown\<close>

text \<open>
  The cleanups of the effects (lines 130 and 448-450) remove the key listener and cancel
  the scheduled animation frame. They touch no ref and not the frightened timer. A
  component that is torn down gets no frame, no key and no reset any more; the browser
  still holds its timeouts, and a callback that fires writes to the refs it captured.
\<close>

datatype Lifecycle = Live Game | TornDown Game

datatype LifeEvent = Happens Event | Teardown

fun lifeStep :: "LifeEvent \<Rightarrow> Lifecycle \<Rightarrow> Lifecycle option" where
  "lifeStep (Happens ev) (Live s) = map_option Live (step ev s)"
| "lifeStep Teardown (Live s) = Some (TornDown s)"
| "lifeStep (Happens (TimeoutFires t)) (TornDown s) = map_option TornDown (step (TimeoutFires t) s)"
| "lifeStep ev (TornDown s) = Some (TornDown s)"

fun lifeRun :: "LifeEvent list \<Rightarrow> Lifecycle \<Rightarrow> Lifecycle option" where
  "lifeRun [] l = Some l"
| "lifeRun (ev # evs) l = (case lifeStep ev l of None \<Rightarrow> None | Some l' \<Rightarrow> lifeRun evs l')"

definition lifeView :: "Lifecycle \<Rightarrow> bool \<times> nat list \<times> Mode list" where
  "lifeView l =
     (case l of
        Live s \<Rightarrow> (False, pendingTimeouts s, map mode (ghostsRef s))
      | TornDown s \<Rightarrow> (True, pendingTimeouts s, map mode (ghostsRef s)))"

subsection \<open>Predicates on states\<close>

text \<open>
  The frightened timer is sound when the browser holds at most one pending expiry, the
  ref holds its handle, and handles are positive and below the next one to be issued.
\<close>

definition timerInv :: "Game \<Rightarrow> bool" where
  "timerInv s =
     (0 < nextTimeout s \<and> length (pendingTimeouts s) \<le> 1
      \<and> (\<forall>t \<in> set (pendingTimeouts s). frightenedTimerRef s = Some t)
      \<and> (\<forall>t. frightenedTimerRef s = Some t \<longrightarrow> 0 < t \<and> t < nextTimeout s))"

definition modesOk :: "Ghost list \<Rightarrow> bool" where
  "modesOk gs = (\<forall>g \<in> set gs. mode g = SCATTER \<or> mode g = FRIGHTENED)"

definition allScatter :: "Ghost list \<Rightarrow> bool" where
  "allScatter gs = (\<forall>g \<in> set gs. mode g = SCATTER)"

text \<open>What the loop over the ghosts in \<open>checkCollisions\<close> keeps.\<close>

definition collisionFrame :: "Game \<Rightarrow> Game \<Rightarrow> bool" where
  "collisionFrame s s' =
     (grid s' = grid s \<and> gameState s' = gameState s \<and> pelletsRef s' = pelletsRef s
      \<and> powerPelletsRef s' = powerPelletsRef s \<and> wallsRef s' = wallsRef s \<and> gateRef s' = gateRef s
      \<and> pendingTimeouts s' = pendingTimeouts s \<and> frightenedTimerRef s' = frightenedTimerRef s
      \<and> nextTimeout s' = nextTimeout s \<and> length (ghostsRef s') = length (ghostsRef s)
      \<and> livesRef s' \<le> livesRef s
      \<and> (modesOk (ghostsRef s) \<longrightarrow> modesOk (ghostsRef s'))
      \<and> (allScatter (ghostsRef s) \<longrightarrow> allScatter (ghostsRef s')))"

definition quietCalls :: "Callback list \<Rightarrow> bool" where
  "quietCalls cs = (OnGameOver True \<notin> set cs)"

definition gameInv :: "Game \<Rightarrow> bool" where
  "gameInv s = (grid s \<noteq> [] \<and> timerInv s \<and> modesOk (ghostsRef s))"

text \<open>
  An expiry \<open>t\<close> issued earlier is harmless in \<open>s\<close> when, as long as it is pending,
  every ghost is in Scatter: its callback then changes nothing.
\<close>

definition staleHarmless :: "nat \<Rightarrow> Game \<Rightarrow> bool" where
  "staleHarmless t s =
     (grid s \<noteq> [] \<and> timerInv s \<and> t < nextTimeout s
      \<and> (t \<in> set (pendingTimeouts s) \<longrightarrow> allScatter (ghostsRef s)))"

subsection \<open>Concrete levels and runs\<close>

text \<open>
  Levels as the generation service may return them (more than 5 rows, first row longer
  than 5), and runs of the program on them. In \<open>steadyRand\<close> no ghost takes the random
  branch.
\<close>

definition steadyRand :: "nat \<Rightarrow> Rand" where
  "steadyRand = (\<lambda>i. \<lparr>chaseRoll = 0, mixRoll = 1 / 2, pickRoll = 0\<rparr>)"

definition corridorLevel :: "string list" where
  "corridorLevel =
     [''#######'', ''### ###'', ''### ###'', ''###P###'', ''###.###'', ''###.###'', ''#######'']"

definition deadEndLevel :: "string list" where
  "deadEndLevel =
     [''#######'', ''#.# ###'', ''### ###'', ''###P###'', ''### ###'', ''#######'', ''#######'']"

definition powerLevel :: "string list" where
  "powerLevel =
     [''#######'', ''#G#####'', ''#######'', ''#PO...#'', ''#######'', ''#######'']"

definition corridorTrace :: "Event list" where
  "corridorTrace =
     [RequestLevel, LevelArrives corridorLevel, StartGame] @ replicate 15 (Frame steadyRand)"

definition deadEndTrace :: "Event list" where
  "deadEndTrace =
     [RequestLevel, LevelArrives deadEndLevel, StartGame, KeyDown ''ArrowDown'']
       @ replicate 27 (Frame steadyRand)"

definition powerTrace :: "Event list" where
  "powerTrace =
     [RequestLevel, LevelArrives powerLevel, StartGame, KeyDown ''ArrowRight'']
       @ replicate 5 (Frame steadyRand)"

text \<open>
  A level whose fourth row is longer than the first: the player spawns at x = 372, beyond
  the map width of 144 that the first row gives.
\<close>

definition raggedLevel :: "string list" where
  "raggedLevel =
     [''######'', ''#....#'', ''######'', ''######         P'', ''######'', ''######'']"

definition raggedTrace :: "Event list" where
  "raggedTrace = [RequestLevel, LevelArrives raggedLevel, StartGame, Frame steadyRand]"

text \<open>A level with two power pellets in the player's path.\<close>

definition twoPowerLevel :: "string list" where
  "twoPowerLevel =
     [''#######'', ''#G#####'', ''#######'', ''#POO..#'', ''#######'', ''#######'']"

definition twoPowerTrace :: "Event list" where
  "twoPowerTrace =
     [RequestLevel, LevelArrives twoPowerLevel, StartGame, KeyDown ''ArrowRight'']
       @ replicate 12 (Frame steadyRand)"

text \<open>
  A state of the power level in which the player is about to take the last pellet while a
  ghost in Scatter stands within 0.8 of a tile.
\<close>

definition lastPelletState :: Game where
  "lastPelletState =
     \<lparr>grid = powerLevel, gameState = PLAYING,
      pacmanRef = \<lparr>x = 99, y = 84, dir = RIGHT, nextDir = NONE, speed = PACMAN_SPEED\<rparr>,
      ghostsRef = [newGhost \<lparr>x = 84, y = 84\<rparr> LEFT 0],
      pelletsRef = [\<lparr>x = 108, y = 84\<rparr>], powerPelletsRef = [], wallsRef = [],
      gateRef = None, scoreRef = 80, livesRef = 3, frightenedTimerRef = Some 1,
      pendingTimeouts = [], nextTimeout = 2\<rparr>"

section \<open>Properties\<close>

lemma getGridPos_center: "getGridPos (of_int k * TILE_SIZE + TILE_SIZE / 2) = k"
proof -
  have "(of_int k * 24 + 24 / 2) / (24::rat) = of_int k + 1 / 2" by simp
  then show ?thesis unfolding getGridPos_def TILE_SIZE_def by (simp add: floor_unique)
qed

lemma isCentered_pos: assumes "isCentered a" shows "0 < a"
proof (rule ccontr)
  assume "\<not> 0 < a"
  then have a: "a \<le> 0" by simp
  then have q: "a / 24 \<le> 0" by simp
  have "a / 24 \<le> of_int \<lceil>a / 24\<rceil>" by (rule le_of_int_ceiling)
  then have "a \<le> 24 * of_int \<lceil>a / 24\<rceil>" by linarith
  then have "js_rem a 24 \<le> 0"
    using q a unfolding js_rem_def truncate_rat_def
    by (cases "a = 0") auto
  with assms show False unfolding isCentered_def TILE_SIZE_def by simp
qed

lemma js_rem_center: assumes "0 \<le> k" shows "js_rem (of_int k * TILE_SIZE + TILE_SIZE / 2) TILE_SIZE = TILE_SIZE / 2"
proof -
  have e: "(of_int k * 24 + 24 / 2) / (24::rat) = of_int k + 1 / 2" by simp
  have "\<lfloor>(of_int k + 1 / 2 :: rat)\<rfloor> = k" by (simp add: floor_unique)
  moreover have "(0::rat) \<le> of_int k + 1 / 2" using assms by simp
  ultimately show ?thesis unfolding js_rem_def truncate_rat_def TILE_SIZE_def e by simp
qed

lemma getGridPos_nonneg: "0 < a \<Longrightarrow> 0 \<le> getGridPos a"
  unfolding getGridPos_def TILE_SIZE_def by simp

lemma isCentered_snap: "isCentered a \<Longrightarrow> isCentered (snapToCenter a)"
  unfolding snapToCenter_def
  using js_rem_center[OF getGridPos_nonneg[OF isCentered_pos]]
  by (simp add: isCentered_def TILE_SIZE_def)

lemma canMove_nonempty:
  "gd \<noteq> [] \<Longrightarrow> \<exists>ok. canMove gd a b d isGhost = Some ok"
  by (cases gd) (auto simp: canMove_def Let_def)

lemma turnEntity_cases:
  "turnEntity gd isGhost e = Some t \<Longrightarrow>
     t = e \<or> t = e\<lparr>dir := nextDir e, nextDir := NONE, x := snapToCenter (x e), y := snapToCenter (y e)\<rparr>"
  unfolding turnEntity_def by (auto split: if_splits option.splits)

lemma turnEntity_total: "gd \<noteq> [] \<Longrightarrow> \<exists>t. turnEntity gd isGhost e = Some t"
  unfolding turnEntity_def using canMove_nonempty[of gd "x e" "y e" "nextDir e" isGhost] by auto

lemma turnEntity_no_request: "nextDir e = NONE \<Longrightarrow> turnEntity gd isGhost e = Some e"
  unfolding turnEntity_def by simp

lemma wrapEntity_heading [simp]: "dir (wrapEntity w e) = dir e" "nextDir (wrapEntity w e) = nextDir e"
  "y (wrapEntity w e) = y e" "Entity.more (wrapEntity w e) = Entity.more e" "speed (wrapEntity w e) = speed e"
  unfolding wrapEntity_def by (simp_all add: Let_def)

lemma stepEntity_heading [simp]: "dir (stepEntity v e) = dir e" "nextDir (stepEntity v e) = nextDir e"
  "Entity.more (stepEntity v e) = Entity.more e" "speed (stepEntity v e) = speed e"
  unfolding stepEntity_def by simp_all

lemma moveEntity_heading:
  "moveEntity gd modeOf e isGhost = Some e' \<Longrightarrow> turnEntity gd isGhost e = Some t \<Longrightarrow>
     dir e' = dir t \<and> nextDir e' = nextDir t \<and> Entity.more e' = Entity.more t \<and> speed e' = speed t"
  unfolding moveEntity_def by (auto simp: Let_def split: if_splits option.splits list.splits)

lemma aheadFree_nonempty: "gd \<noteq> [] \<Longrightarrow> \<exists>ok. aheadFree gd isGhost e = Some ok"
  unfolding aheadFree_def using canMove_nonempty by auto

lemma moveEntity_nonempty:
  assumes "gd \<noteq> []" "turnEntity gd isGhost e = Some t"
  shows "\<exists>e'. moveEntity gd modeOf e isGhost = Some e'"
proof -
  obtain ok where "aheadFree gd isGhost t = Some ok" using aheadFree_nonempty[OF assms(1)] by blast
  then show ?thesis using assms unfolding moveEntity_def by (cases gd) (auto simp: Let_def)
qed

lemma canMove_tile: "getGridPos a' = getGridPos a \<Longrightarrow> getGridPos b' = getGridPos b \<Longrightarrow>
   canMove gd a' b' d g = canMove gd a b d g"
  unfolding canMove_def by simp

lemma wrapEntity_eq:
  "wrapEntity w e =
     e\<lparr>x := (if x e < - TILE_SIZE / 2 then w + TILE_SIZE / 2
              else if x e > w + TILE_SIZE / 2 then - TILE_SIZE / 2 else x e)\<rparr>"
  unfolding wrapEntity_def Let_def by simp

lemma stepEntity_eq:
  "dir e \<noteq> NONE \<Longrightarrow> stepEntity v e =
     e\<lparr>x := (if dir e = LEFT then x e - v else if dir e = RIGHT then x e + v else x e),
       y := (if dir e = UP then y e - v else if dir e = DOWN then y e + v else y e)\<rparr>"
  unfolding stepEntity_def by (cases "dir e") simp_all

lemma moveEntity_result:
  assumes "gd \<noteq> []" and "turnEntity gd isGhost e = Some t"
  shows "moveEntity gd modeOf e isGhost =
     Some (if dir t = NONE \<or> (isCentered (x t) \<and> isCentered (y t)
                               \<and> canMove gd (x t) (y t) (dir t) isGhost = Some False)
           then t
           else wrapEntity (of_nat (length (gd ! 0)) * TILE_SIZE)
                  (stepEntity (if isGhost \<and> modeOf t = Some FRIGHTENED then FRIGHTENED_SPEED else speed t) t))"
proof -
  obtain row0 rest where gd: "gd = row0 # rest" using assms(1) by (cases gd) auto
  obtain ok where ok: "canMove gd (x t) (y t) (dir t) isGhost = Some ok"
    using canMove_nonempty[OF assms(1)] by blast
  show ?thesis
    unfolding moveEntity_def aheadFree_def using assms(2) ok by (simp add: gd Let_def)
qed

lemma centered_tile:
  assumes "isCentered a"
  shows "0 \<le> getGridPos a" and "of_int (getGridPos a) * TILE_SIZE \<le> a"
    and "a < of_int (getGridPos a + 1) * TILE_SIZE"
    and "\<bar>a - (of_int (getGridPos a) * TILE_SIZE + TILE_SIZE / 2)\<bar> < 2"
proof -
  have p: "0 < a" by (rule isCentered_pos[OF assms])
  show "0 \<le> getGridPos a" by (rule getGridPos_nonneg[OF p])
  have f: "of_int \<lfloor>a / 24\<rfloor> \<le> a / 24" "a / 24 < of_int \<lfloor>a / 24\<rfloor> + 1" by linarith+
  show "of_int (getGridPos a) * TILE_SIZE \<le> a" "a < of_int (getGridPos a + 1) * TILE_SIZE"
    using f unfolding getGridPos_def TILE_SIZE_def by simp_all
  have "0 \<le> a / 24" using p by simp
  then have "js_rem a 24 = a - 24 * of_int \<lfloor>a / 24\<rfloor>"
    unfolding js_rem_def truncate_rat_def by simp
  then show "\<bar>a - (of_int (getGridPos a) * TILE_SIZE + TILE_SIZE / 2)\<bar> < 2"
    using assms unfolding isCentered_def getGridPos_def TILE_SIZE_def by (simp add: algebra_simps)
qed

lemma tile_unique:
  assumes "of_int k * TILE_SIZE \<le> a" "a < of_int (k + 1) * TILE_SIZE"
  shows "getGridPos a = k"
proof -
  have "of_int k \<le> a / 24" "a / 24 < of_int k + 1"
    using assms unfolding TILE_SIZE_def by (simp_all add: field_simps)
  then show ?thesis unfolding getGridPos_def TILE_SIZE_def by (simp add: floor_unique)
qed

text \<open>
  Claim C7, as amended. An agent centered on both axes with a request other than NONE
  stands in the tile of column \<open>kx\<close> and row \<open>ky\<close>, within 2 of its centre. If the tile
  one step in the requested direction is enterable, the step makes the request the
  heading, clears the request, snaps the position to the centre of the occupied tile and
  then advances it by the movement rate along the new heading (through the tunnel if it
  leaves the map): it ends on the centre line of the tile across the heading and one
  movement rate from the centre along it. If the tile is not enterable, heading and
  request stay as they were. A wall tile inside the grid is never enterable, a gate tile
  only for a ghost.
\<close>

theorem turn_snaps_then_advances:
  assumes "gd \<noteq> []" and "isCentered (x e)" and "isCentered (y e)" and "nextDir e \<noteq> NONE"
  shows "\<exists>kx ky ok e'.
           0 \<le> kx \<and> of_int kx * TILE_SIZE \<le> x e \<and> x e < of_int (kx + 1) * TILE_SIZE
         \<and> 0 \<le> ky \<and> of_int ky * TILE_SIZE \<le> y e \<and> y e < of_int (ky + 1) * TILE_SIZE
         \<and> canMove gd (x e) (y e) (nextDir e) isGhost = Some ok
         \<and> moveEntity gd modeOf e isGhost = Some e'
         \<and> (let cx = of_int kx * TILE_SIZE + TILE_SIZE / 2;
                 cy = of_int ky * TILE_SIZE + TILE_SIZE / 2;
                 snapped = e\<lparr>dir := nextDir e, nextDir := NONE, x := cx, y := cy\<rparr>;
                 v = (if isGhost \<and> modeOf snapped = Some FRIGHTENED then FRIGHTENED_SPEED else speed e);
                 mapWidth = of_nat (length (gd ! 0)) * TILE_SIZE;
                 ax = (if nextDir e = LEFT then cx - v else if nextDir e = RIGHT then cx + v else cx);
                 ay = (if nextDir e = UP then cy - v else if nextDir e = DOWN then cy + v else cy)
             in \<bar>x e - cx\<bar> < 2 \<and> \<bar>y e - cy\<bar> < 2
              \<and> (ok \<longrightarrow> turnEntity gd isGhost e = Some snapped
                        \<and> e' = snapped\<lparr>x := (if ax < - TILE_SIZE / 2 then mapWidth + TILE_SIZE / 2
                                             else if ax > mapWidth + TILE_SIZE / 2 then - TILE_SIZE / 2
                                             else ax),
                                       y := ay\<rparr>)
              \<and> (\<not> ok \<longrightarrow> turnEntity gd isGhost e = Some e
                          \<and> dir e' = dir e \<and> nextDir e' = nextDir e))
         \<and> (let c = kx + (if nextDir e = LEFT then - 1 else if nextDir e = RIGHT then 1 else 0);
                 r = ky + (if nextDir e = UP then - 1 else if nextDir e = DOWN then 1 else 0)
             in 0 \<le> c \<and> c < int (length (gd ! 0)) \<and> 0 \<le> r \<and> r < int (length gd) \<longrightarrow>
                  (charAt (gd ! nat r) (nat c) = Some CHR ''#'' \<longrightarrow> \<not> ok)
                \<and> (charAt (gd ! nat r) (nat c) = Some CHR ''-'' \<longrightarrow> ok = isGhost))"
proof -
  define kx where "kx = getGridPos (x e)"
  define ky where "ky = getGridPos (y e)"
  define cx where "cx = of_int kx * TILE_SIZE + TILE_SIZE / 2"
  define cy where "cy = of_int ky * TILE_SIZE + TILE_SIZE / 2"
  define snapped where "snapped = e\<lparr>dir := nextDir e, nextDir := NONE, x := cx, y := cy\<rparr>"
  define v where "v = (if isGhost \<and> modeOf snapped = Some FRIGHTENED then FRIGHTENED_SPEED else speed e)"
  define ax where "ax = (if nextDir e = LEFT then cx - v else if nextDir e = RIGHT then cx + v else cx)"
  define ay where "ay = (if nextDir e = UP then cy - v else if nextDir e = DOWN then cy + v else cy)"
  note tx = centered_tile[OF assms(2), folded kx_def]
  note ty = centered_tile[OF assms(3), folded ky_def]
  obtain ok where ok: "canMove gd (x e) (y e) (nextDir e) isGhost = Some ok"
    using canMove_nonempty[OF assms(1)] by blast
  have gx: "getGridPos cx = kx" and gy: "getGridPos cy = ky"
    unfolding cx_def cy_def by (simp_all add: getGridPos_center)
  have cc: "isCentered cx" "isCentered cy"
    unfolding cx_def cy_def isCentered_def using js_rem_center tx(1) ty(1)
    by (simp_all add: TILE_SIZE_def)
  have turn: "turnEntity gd isGhost e = Some (if ok then snapped else e)"
    unfolding turnEntity_def snapped_def cx_def cy_def kx_def ky_def snapToCenter_def
    using assms(2,3,4) ok by simp
  obtain e' where e': "moveEntity gd modeOf e isGhost = Some e'"
    using moveEntity_nonempty[OF assms(1) turn] by blast
  have hd: "dir e' = dir (if ok then snapped else e)" "nextDir e' = nextDir (if ok then snapped else e)"
    using moveEntity_heading[OF e' turn] by simp_all
  have moved: "e' = snapped\<lparr>x := (if ax < - TILE_SIZE / 2 then of_nat (length (gd ! 0)) * TILE_SIZE + TILE_SIZE / 2
                                   else if ax > of_nat (length (gd ! 0)) * TILE_SIZE + TILE_SIZE / 2 then - TILE_SIZE / 2
                                   else ax),
                             y := ay\<rparr>" if "ok"
  proof -
    have t: "turnEntity gd isGhost e = Some snapped" using turn that by simp
    have d: "dir snapped = nextDir e" "x snapped = cx" "y snapped = cy" "speed snapped = speed e"
      unfolding snapped_def by simp_all
    have "canMove gd cx cy (nextDir e) isGhost = Some True"
      using ok that canMove_tile[of cx "x e" cy "y e"] gx gy unfolding kx_def ky_def by simp
    then have free: "canMove gd (x snapped) (y snapped) (dir snapped) isGhost = Some True"
      using d by simp
    have "e' = wrapEntity (of_nat (length (gd ! 0)) * TILE_SIZE) (stepEntity v snapped)"
      using moveEntity_result[OF assms(1) t, of modeOf] e' d(1,4) assms(4) unfolding v_def free by simp
    also have "stepEntity v snapped = snapped\<lparr>x := ax, y := ay\<rparr>"
      using stepEntity_eq[of snapped v] d assms(4) unfolding ax_def ay_def by simp
    finally show ?thesis unfolding wrapEntity_eq by simp
  qed
  have tile: "(let c = kx + (if nextDir e = LEFT then - 1 else if nextDir e = RIGHT then 1 else 0);
                   r = ky + (if nextDir e = UP then - 1 else if nextDir e = DOWN then 1 else 0)
               in 0 \<le> c \<and> c < int (length (gd ! 0)) \<and> 0 \<le> r \<and> r < int (length gd) \<longrightarrow>
                    (charAt (gd ! nat r) (nat c) = Some CHR ''#'' \<longrightarrow> \<not> ok)
                  \<and> (charAt (gd ! nat r) (nat c) = Some CHR ''-'' \<longrightarrow> ok = isGhost))"
    using assms(1,4) ok unfolding canMove_def isWalkable_def Let_def kx_def ky_def
    by (cases gd; cases "nextDir e") (auto split: if_splits)
  have body: "(let cx = of_int kx * TILE_SIZE + TILE_SIZE / 2;
                 cy = of_int ky * TILE_SIZE + TILE_SIZE / 2;
                 snapped = e\<lparr>dir := nextDir e, nextDir := NONE, x := cx, y := cy\<rparr>;
                 v = (if isGhost \<and> modeOf snapped = Some FRIGHTENED then FRIGHTENED_SPEED else speed e);
                 mapWidth = of_nat (length (gd ! 0)) * TILE_SIZE;
                 ax = (if nextDir e = LEFT then cx - v else if nextDir e = RIGHT then cx + v else cx);
                 ay = (if nextDir e = UP then cy - v else if nextDir e = DOWN then cy + v else cy)
             in \<bar>x e - cx\<bar> < 2 \<and> \<bar>y e - cy\<bar> < 2
              \<and> (ok \<longrightarrow> turnEntity gd isGhost e = Some snapped
                        \<and> e' = snapped\<lparr>x := (if ax < - TILE_SIZE / 2 then mapWidth + TILE_SIZE / 2
                                             else if ax > mapWidth + TILE_SIZE / 2 then - TILE_SIZE / 2
                                             else ax),
                                       y := ay\<rparr>)
              \<and> (\<not> ok \<longrightarrow> turnEntity gd isGhost e = Some e
                          \<and> dir e' = dir e \<and> nextDir e' = nextDir e))"
    unfolding Let_def cx_def[symmetric] cy_def[symmetric] snapped_def[symmetric] v_def[symmetric]
      ax_def[symmetric] ay_def[symmetric]
    using tx(4) ty(4) turn moved hd unfolding cx_def cy_def by auto
  show ?thesis
    apply (rule exI[of _ kx], rule exI[of _ ky], rule exI[of _ ok], rule exI[of _ e'])
    using tx(1,2,3) ty(1,2,3) ok e' body tile by blast
qed

text \<open>
  Claim C8, as amended. On a grid with a row, \<open>canMove\<close> answers true for a step to a
  column before the first or past the last one, whatever the tiles, the row and the kind
  of agent. A movement step that displaces the agent (its heading after the turn is not
  NONE and it is not centered in front of a tile it cannot enter) relocates an x that
  comes to lie more than half a tile left of the map to the map width plus half a tile,
  and an x more than half a tile right of the map to minus half a tile; the y is the
  displaced y, never wrapped. A step that does not displace the agent leaves it where the
  turn left it, also beyond an edge.
\<close>

theorem displacing_step_relocates:
  assumes "gd \<noteq> []"
  shows "(let nextCol = getGridPos a + (if d = LEFT then - 1 else if d = RIGHT then 1 else 0)
          in nextCol < 0 \<or> nextCol \<ge> int (length (gd ! 0)) \<longrightarrow> canMove gd a b d isGhost = Some True)
       \<and> (\<exists>t e'. turnEntity gd isGhost e = Some t \<and> (nextDir e = NONE \<longrightarrow> t = e)
            \<and> moveEntity gd modeOf e isGhost = Some e'
            \<and> (let mapWidth = of_nat (length (gd ! 0)) * TILE_SIZE;
                    blocked = (isCentered (x t) \<and> isCentered (y t)
                               \<and> canMove gd (x t) (y t) (dir t) isGhost = Some False);
                    v = (if isGhost \<and> modeOf t = Some FRIGHTENED then FRIGHTENED_SPEED else speed t);
                    ax = (if dir t = LEFT then x t - v else if dir t = RIGHT then x t + v else x t);
                    ay = (if dir t = UP then y t - v else if dir t = DOWN then y t + v else y t)
                in (dir t = NONE \<or> blocked \<longrightarrow> e' = t)
                 \<and> (dir t \<noteq> NONE \<and> \<not> blocked \<longrightarrow>
                      e' = t\<lparr>x := (if ax < - TILE_SIZE / 2 then mapWidth + TILE_SIZE / 2
                                   else if ax > mapWidth + TILE_SIZE / 2 then - TILE_SIZE / 2
                                   else ax),
                             y := ay\<rparr>
                      \<and> - TILE_SIZE / 2 \<le> x e' \<and> x e' \<le> mapWidth + TILE_SIZE / 2)))"
proof -
  obtain row0 rest where gd: "gd = row0 # rest" using assms by (cases gd) auto
  have w: "(0::rat) \<le> of_nat (length (gd ! 0)) * TILE_SIZE" unfolding TILE_SIZE_def by simp
  have A: "(let nextCol = getGridPos a + (if d = LEFT then - 1 else if d = RIGHT then 1 else 0)
          in nextCol < 0 \<or> nextCol \<ge> int (length (gd ! 0)) \<longrightarrow> canMove gd a b d isGhost = Some True)"
    unfolding canMove_def Let_def gd by (cases d) auto
  obtain t where t: "turnEntity gd isGhost e = Some t" using turnEntity_total[OF assms] by blast
  have tn: "nextDir e = NONE \<Longrightarrow> t = e" using t turnEntity_no_request[of e gd isGhost] by simp
  define blocked where "blocked = (isCentered (x t) \<and> isCentered (y t)
                               \<and> canMove gd (x t) (y t) (dir t) isGhost = Some False)"
  define v where "v = (if isGhost \<and> modeOf t = Some FRIGHTENED then FRIGHTENED_SPEED else speed t)"
  define ax where "ax = (if dir t = LEFT then x t - v else if dir t = RIGHT then x t + v else x t)"
  define ay where "ay = (if dir t = UP then y t - v else if dir t = DOWN then y t + v else y t)"
  define wx where "wx = (if ax < - TILE_SIZE / 2 then of_nat (length (gd ! 0)) * TILE_SIZE + TILE_SIZE / 2
                         else if ax > of_nat (length (gd ! 0)) * TILE_SIZE + TILE_SIZE / 2 then - TILE_SIZE / 2
                         else ax)"
  define e' where "e' = (if dir t = NONE \<or> blocked then t else t\<lparr>x := wx, y := ay\<rparr>)"
  have st: "dir t \<noteq> NONE \<Longrightarrow> stepEntity v t = t\<lparr>x := ax, y := ay\<rparr>"
    using stepEntity_eq[of t v] unfolding ax_def ay_def by simp
  have m: "moveEntity gd modeOf e isGhost = Some e'"
    unfolding moveEntity_result[OF assms t, of modeOf] e'_def blocked_def[symmetric] v_def[symmetric]
    using st unfolding wrapEntity_eq wx_def by auto
  have bounds: "- TILE_SIZE / 2 \<le> wx \<and> wx \<le> of_nat (length (gd ! 0)) * TILE_SIZE + TILE_SIZE / 2"
    using w unfolding wx_def TILE_SIZE_def by auto
  have B: "(let mapWidth = of_nat (length (gd ! 0)) * TILE_SIZE;
                    blocked = (isCentered (x t) \<and> isCentered (y t)
                               \<and> canMove gd (x t) (y t) (dir t) isGhost = Some False);
                    v = (if isGhost \<and> modeOf t = Some FRIGHTENED then FRIGHTENED_SPEED else speed t);
                    ax = (if dir t = LEFT then x t - v else if dir t = RIGHT then x t + v else x t);
                    ay = (if dir t = UP then y t - v else if dir t = DOWN then y t + v else y t)
                in (dir t = NONE \<or> blocked \<longrightarrow> e' = t)
                 \<and> (dir t \<noteq> NONE \<and> \<not> blocked \<longrightarrow>
                      e' = t\<lparr>x := (if ax < - TILE_SIZE / 2 then mapWidth + TILE_SIZE / 2
                                   else if ax > mapWidth + TILE_SIZE / 2 then - TILE_SIZE / 2
                                   else ax),
                             y := ay\<rparr>
                      \<and> - TILE_SIZE / 2 \<le> x e' \<and> x e' \<le> mapWidth + TILE_SIZE / 2))"
    unfolding Let_def blocked_def[symmetric] v_def[symmetric] ax_def[symmetric] ay_def[symmetric]
      wx_def[symmetric]
    using bounds unfolding e'_def by simp
  show ?thesis using A t tn m B by blast
qed

lemma filterThrowing_Some:
  assumes "\<And>a. a \<in> set as \<Longrightarrow> p a \<noteq> None"
  shows "filterThrowing p as = Some (filter (\<lambda>a. p a = Some True) as)"
  using assms by (induction as) (auto split: option.splits)

lemma validDirs_nonempty:
  "gd \<noteq> [] \<Longrightarrow> filterThrowing (\<lambda>d. canMove gd a b d g) ds = Some (filter (\<lambda>d. canMove gd a b d g = Some True) ds)"
  using canMove_nonempty[of gd a b _ g] by (intro filterThrowing_Some) fastforce

lemma ghostChoices_subset: "set (ghostChoices valid g) \<subseteq> set valid"
  unfolding ghostChoices_def by (auto simp: Let_def)

lemma ghostChoices_nonReverse:
  "opposite (dir g) \<in> set (ghostChoices valid g) \<Longrightarrow> \<forall>d \<in> set valid. d = opposite (dir g)"
  unfolding ghostChoices_def by (auto simp: Let_def filter_empty_conv split: if_splits)

lemma ghostChoices_empty: "ghostChoices valid g = [] \<longleftrightarrow> valid = []"
  unfolding ghostChoices_def by (auto simp: Let_def filter_empty_conv split: if_splits)

lemma pick_in_range:
  assumes "0 \<le> (r::rat)" "r < 1" "0 < n"
  shows "nat \<lfloor>r * of_nat n\<rfloor> < n"
proof -
  have "r * of_nat n < of_nat n" using assms by simp
  then have "\<lfloor>r * of_nat n\<rfloor> < int n" by (simp add: floor_less_iff)
  moreover have "0 \<le> \<lfloor>r * of_nat n\<rfloor>" using assms by simp
  ultimately show ?thesis by linarith
qed

lemma decideGhost_dir:
  assumes "isCentered (x g)" "isCentered (y g)" "validRand r"
    and "filterThrowing (\<lambda>d. canMove gd (x g) (y g) d True) possibleDirs = Some valid"
  shows "\<exists>d. decideGhost gd pac r g = Some (g\<lparr>dir := d\<rparr>)
           \<and> (if valid = [] then d = opposite (dir g) else d \<in> set (ghostChoices valid g))"
proof -
  define choices where "choices = (if mode g = CHASE \<and> chaseRoll r > 3 / 10
                            then sort_key (chaseKey pac g) (ghostChoices valid g) else ghostChoices valid g)"
  have s: "set choices = set (ghostChoices valid g)" unfolding choices_def by simp
  have e: "choices = [] \<longleftrightarrow> valid = []" using s ghostChoices_empty[of valid g] by (metis set_empty)
  have eq: "decideGhost gd pac r g =
      (if length choices > 0 then
         (if length choices > 1 \<and> mixRoll r < 1 / 5
          then Some (g\<lparr>dir := choices ! nat \<lfloor>pickRoll r * of_nat (length choices)\<rfloor>\<rparr>)
          else Some (g\<lparr>dir := choices ! 0\<rparr>))
       else Some (g\<lparr>dir := opposite (dir g)\<rparr>))"
    unfolding decideGhost_def choices_def using assms(1,2,4) by (simp add: Let_def)
  show ?thesis
  proof (cases "valid = []")
    case True
    then show ?thesis using e eq by simp
  next
    case False
    then have ne: "0 < length choices" using e by simp
    have "nat \<lfloor>pickRoll r * of_nat (length choices)\<rfloor> < length choices"
      using pick_in_range[of "pickRoll r" "length choices"] ne assms(3) unfolding validRand_def by blast
    then have "choices ! nat \<lfloor>pickRoll r * of_nat (length choices)\<rfloor> \<in> set (ghostChoices valid g)"
      using s nth_mem by blast
    moreover have "choices ! 0 \<in> set (ghostChoices valid g)" using ne s nth_mem by blast
    ultimately show ?thesis
      using False ne eq by auto
  qed
qed

text \<open>
  Claim C9. A centered ghost, random numbers in [0, 1): the decision yields a ghost whose
  heading is the opposite of its heading before only if no heading is enterable or every
  enterable heading is that opposite. With no request buffered (ghosts never have one),
  the heading after the whole update of the ghost is the decided one.
\<close>

theorem ghost_reverses_only_at_dead_end:
  assumes "gd \<noteq> []" and "isCentered (x g)" and "isCentered (y g)" and "validRand r"
  shows "\<exists>valid g'. filterThrowing (\<lambda>d. canMove gd (x g) (y g) d True) possibleDirs = Some valid
           \<and> decideGhost gd pac r g = Some g'
           \<and> (dir g' = opposite (dir g) \<longrightarrow> valid = [] \<or> (\<forall>d \<in> set valid. d = opposite (dir g)))
           \<and> (nextDir g = NONE \<longrightarrow>
                (\<exists>g''. updateGhost gd pac r g = Some g'' \<and> dir g'' = dir g'))"
proof -
  let ?valid = "filter (\<lambda>d. canMove gd (x g) (y g) d True = Some True) possibleDirs"
  have v: "filterThrowing (\<lambda>d. canMove gd (x g) (y g) d True) possibleDirs = Some ?valid"
    by (rule validDirs_nonempty[OF assms(1)])
  obtain d where d: "decideGhost gd pac r g = Some (g\<lparr>dir := d\<rparr>)"
    and dd: "if ?valid = [] then d = opposite (dir g) else d \<in> set (ghostChoices ?valid g)"
    using decideGhost_dir[OF assms(2,3,4) v] by blast
  have rev: "d = opposite (dir g) \<Longrightarrow> ?valid = [] \<or> (\<forall>k \<in> set ?valid. k = opposite (dir g))"
    using dd ghostChoices_nonReverse[of g ?valid] by (auto split: if_splits)
  have mv: "nextDir g = NONE \<Longrightarrow> \<exists>g''. updateGhost gd pac r g = Some g'' \<and> dir g'' = d"
  proof -
    assume n: "nextDir g = NONE"
    have t: "turnEntity gd True (g\<lparr>dir := d\<rparr>) = Some (g\<lparr>dir := d\<rparr>)"
      using n by (simp add: turnEntity_no_request)
    obtain g'' where m: "moveEntity gd (\<lambda>e. Some (mode e)) (g\<lparr>dir := d\<rparr>) True = Some g''"
      using moveEntity_nonempty[OF assms(1) t] by blast
    have "dir g'' = d" using moveEntity_heading[OF m t] by simp
    then show ?thesis unfolding updateGhost_def using d m by simp
  qed
  show ?thesis
    apply (rule exI[of _ ?valid], rule exI[of _ "g\<lparr>dir := d\<rparr>"])
    using v d rev mv by simp
qed

lemma filterPellets_eq:
  "filterPellets a b ps (s, e) =
     (filter (\<lambda>p. \<not> hypotLess (x p - a) (y p - b) (TILE_SIZE / 2)) ps,
      s\<lparr>scoreRef := scoreRef s + 10 * int (length (filter (\<lambda>p. hypotLess (x p - a) (y p - b) (TILE_SIZE / 2)) ps))\<rparr>,
      e \<or> filter (\<lambda>p. hypotLess (x p - a) (y p - b) (TILE_SIZE / 2)) ps \<noteq> [])"
  by (induction ps arbitrary: s e) auto

lemma filterPowerPellets_eq:
  "filterPowerPellets a b ps (s, e) =
     (filter (\<lambda>p. \<not> hypotLess (x p - a) (y p - b) (TILE_SIZE / 2)) ps,
      (powerPelletHit ^^ length (filter (\<lambda>p. hypotLess (x p - a) (y p - b) (TILE_SIZE / 2)) ps)) s,
      e \<or> filter (\<lambda>p. hypotLess (x p - a) (y p - b) (TILE_SIZE / 2)) ps \<noteq> [])"
  by (induction ps arbitrary: s e) (auto simp: funpow_swap1)

lemma powerPelletHit_frame [simp]:
  "grid (powerPelletHit s) = grid s" "gameState (powerPelletHit s) = gameState s"
  "pacmanRef (powerPelletHit s) = pacmanRef s" "pelletsRef (powerPelletHit s) = pelletsRef s"
  "powerPelletsRef (powerPelletHit s) = powerPelletsRef s" "wallsRef (powerPelletHit s) = wallsRef s"
  "gateRef (powerPelletHit s) = gateRef s" "livesRef (powerPelletHit s) = livesRef s"
  "scoreRef (powerPelletHit s) = scoreRef s + 50"
  "ghostsRef (powerPelletHit s) = map (\<lambda>g. g\<lparr>mode := FRIGHTENED\<rparr>) (ghostsRef s)"
  "nextTimeout (powerPelletHit s) = Suc (nextTimeout s)"
  "frightenedTimerRef (powerPelletHit s) = Some (nextTimeout s)"
  unfolding powerPelletHit_def by (simp_all add: Let_def)

lemma powerPelletHit_pending:
  assumes "timerInv s"
  shows "pendingTimeouts (powerPelletHit s) = [nextTimeout s]"
proof (cases "frightenedTimerRef s")
  case None
  then have "pendingTimeouts s = []" using assms unfolding timerInv_def by (cases "pendingTimeouts s") auto
  then show ?thesis using None unfolding powerPelletHit_def by (simp add: Let_def)
next
  case (Some t)
  then have "0 < t" using assms unfolding timerInv_def by simp
  moreover have "removeAll t (pendingTimeouts s) = []"
    using assms Some unfolding timerInv_def by (auto simp: removeAll_filter_not_eq filter_empty_conv)
  ultimately show ?thesis using Some unfolding powerPelletHit_def clearTimeout_def by (simp add: Let_def)
qed

lemma powerPelletHit_timerInv: "timerInv s \<Longrightarrow> timerInv (powerPelletHit s)"
  using powerPelletHit_pending[of s] unfolding timerInv_def by auto

lemma hits_frame [simp]:
  "grid ((powerPelletHit ^^ n) s) = grid s" "gameState ((powerPelletHit ^^ n) s) = gameState s"
  "pacmanRef ((powerPelletHit ^^ n) s) = pacmanRef s" "pelletsRef ((powerPelletHit ^^ n) s) = pelletsRef s"
  "powerPelletsRef ((powerPelletHit ^^ n) s) = powerPelletsRef s" "wallsRef ((powerPelletHit ^^ n) s) = wallsRef s"
  "gateRef ((powerPelletHit ^^ n) s) = gateRef s" "livesRef ((powerPelletHit ^^ n) s) = livesRef s"
  "scoreRef ((powerPelletHit ^^ n) s) = scoreRef s + 50 * int n"
  "nextTimeout ((powerPelletHit ^^ n) s) = nextTimeout s + n"
  "length (ghostsRef ((powerPelletHit ^^ n) s)) = length (ghostsRef s)"
  by (induction n) simp_all

lemma hits_timerInv: "timerInv s \<Longrightarrow> timerInv ((powerPelletHit ^^ n) s)"
  by (induction n) (simp_all add: powerPelletHit_timerInv)

lemma hits_pending:
  assumes "timerInv s" "0 < n"
  shows "pendingTimeouts ((powerPelletHit ^^ n) s) = [nextTimeout s + n - 1]
       \<and> frightenedTimerRef ((powerPelletHit ^^ n) s) = Some (nextTimeout s + n - 1)
       \<and> (\<forall>g \<in> set (ghostsRef ((powerPelletHit ^^ n) s)). mode g = FRIGHTENED)"
proof -
  obtain k where n: "n = Suc k" using assms(2) by (cases n) auto
  have "timerInv ((powerPelletHit ^^ k) s)" by (rule hits_timerInv[OF assms(1)])
  then show ?thesis using powerPelletHit_pending[of "(powerPelletHit ^^ k) s"] unfolding n by simp
qed

lemma hits_modes:
  "ghostsRef ((powerPelletHit ^^ n) s) = ghostsRef s \<or> (\<forall>g \<in> set (ghostsRef ((powerPelletHit ^^ n) s)). mode g = FRIGHTENED)"
  by (cases n) simp_all

lemma consume_eq:
  "consume s =
     (let hit = (\<lambda>p. hypotLess (x p - x (pacmanRef s)) (y p - y (pacmanRef s)) (TILE_SIZE / 2));
          n = length (filter hit (powerPelletsRef s));
          s1 = s\<lparr>scoreRef := scoreRef s + 10 * int (length (filter hit (pelletsRef s))),
                 pelletsRef := filter (\<lambda>p. \<not> hit p) (pelletsRef s)\<rparr>;
          s3 = ((powerPelletHit ^^ n) s1)\<lparr>powerPelletsRef := filter (\<lambda>p. \<not> hit p) (powerPelletsRef s)\<rparr>
      in (s3, if filter hit (pelletsRef s) \<noteq> [] \<or> filter hit (powerPelletsRef s) \<noteq> []
              then [OnScoreUpdate (scoreRef s3)] else []))"
  unfolding consume_def by (simp add: Let_def filterPellets_eq filterPowerPellets_eq)

lemma initLevelPosOnly_frame [simp]:
  "grid (initLevelPosOnly s) = grid s" "gameState (initLevelPosOnly s) = gameState s"
  "pelletsRef (initLevelPosOnly s) = pelletsRef s" "powerPelletsRef (initLevelPosOnly s) = powerPelletsRef s"
  "wallsRef (initLevelPosOnly s) = wallsRef s" "gateRef (initLevelPosOnly s) = gateRef s"
  "livesRef (initLevelPosOnly s) = livesRef s" "scoreRef (initLevelPosOnly s) = scoreRef s"
  "pendingTimeouts (initLevelPosOnly s) = pendingTimeouts s"
  "frightenedTimerRef (initLevelPosOnly s) = frightenedTimerRef s"
  "nextTimeout (initLevelPosOnly s) = nextTimeout s"
  "length (ghostsRef (initLevelPosOnly s)) = length (ghostsRef s)"
  unfolding initLevelPosOnly_def by (simp_all add: Let_def)

lemma initLevelPosOnly_modes: "g \<in> set (ghostsRef (initLevelPosOnly s)) \<Longrightarrow> mode g = SCATTER"
  unfolding initLevelPosOnly_def by (auto simp: Let_def)

lemma collisionFrame_refl: "collisionFrame s s"
  unfolding collisionFrame_def by simp

lemma collisionFrame_trans: "collisionFrame s s' \<Longrightarrow> collisionFrame s' s'' \<Longrightarrow> collisionFrame s s''"
  unfolding collisionFrame_def by auto

lemma modesOk_update: "modesOk gs \<Longrightarrow> mode g = SCATTER \<Longrightarrow> modesOk (gs[i := g])"
  unfolding modesOk_def by (auto dest!: set_update_subset_insert[THEN subsetD])

lemma allScatter_update: "allScatter gs \<Longrightarrow> mode g = SCATTER \<Longrightarrow> allScatter (gs[i := g])"
  unfolding allScatter_def by (auto dest!: set_update_subset_insert[THEN subsetD])

lemma initLevelPosOnly_allScatter: "allScatter (ghostsRef (initLevelPosOnly s))"
  unfolding allScatter_def using initLevelPosOnly_modes by blast

lemma allScatter_modesOk: "allScatter gs \<Longrightarrow> modesOk gs"
  unfolding allScatter_def modesOk_def by simp

lemma collideGhost_frame:
  assumes "collideGhost a b i (s, calls) = (s', calls')"
  shows "collisionFrame s s' \<and> (\<exists>extra. calls' = calls @ extra \<and> quietCalls extra)"
  using assms unfolding collideGhost_def collisionFrame_def quietCalls_def
  by (auto simp: Let_def modesOk_update allScatter_update initLevelPosOnly_allScatter
        allScatter_modesOk[OF initLevelPosOnly_allScatter] split: if_splits)

lemma fold_collide_frame:
  assumes "fold (collideGhost a b) is (s, calls) = (s', calls')"
  shows "collisionFrame s s' \<and> (\<exists>extra. calls' = calls @ extra \<and> quietCalls extra)"
  using assms
proof (induction "is" arbitrary: s calls)
  case Nil
  then show ?case by (simp add: collisionFrame_refl quietCalls_def)
next
  case (Cons i "is")
  obtain s1 calls1 where c: "collideGhost a b i (s, calls) = (s1, calls1)" by fastforce
  from collideGhost_frame[OF c] obtain e1 where
    f1: "collisionFrame s s1" and e1: "calls1 = calls @ e1" "quietCalls e1" by blast
  from Cons.prems c have "fold (collideGhost a b) is (s1, calls1) = (s', calls')" by simp
  from Cons.IH[OF this] obtain e2 where
    f2: "collisionFrame s1 s'" and e2: "calls' = calls1 @ e2" "quietCalls e2" by blast
  have "calls' = calls @ (e1 @ e2)" "quietCalls (e1 @ e2)"
    using e1 e2 unfolding quietCalls_def by auto
  then show ?case using collisionFrame_trans[OF f1 f2] by blast
qed

lemma ghostCollisions_frame:
  assumes "ghostCollisions a b (s, calls) = (s', calls')"
  shows "collisionFrame s s' \<and> (\<exists>extra. calls' = calls @ extra \<and> quietCalls extra)"
  using assms unfolding ghostCollisions_def by (rule fold_collide_frame)

lemma consume_calls:
  "consume s = (s3, calls3) \<Longrightarrow> calls3 = [] \<or> calls3 = [OnScoreUpdate (scoreRef s3)]"
  unfolding consume_eq by (auto simp: Let_def split: if_splits)

lemma consume_frame:
  assumes "consume s = (s3, calls3)"
  shows "grid s3 = grid s" "gameState s3 = gameState s" "livesRef s3 = livesRef s"
    "pacmanRef s3 = pacmanRef s" "gateRef s3 = gateRef s" "wallsRef s3 = wallsRef s"
    "length (ghostsRef s3) = length (ghostsRef s)"
  using assms unfolding consume_eq by (auto simp: Let_def)

lemma fold_handleCallback_frame:
  "fold handleCallback cs s = s\<lparr>gameState := gameState (fold handleCallback cs s)\<rparr>"
proof (induction cs arbitrary: s)
  case Nil
  then show ?case by simp
next
  case (Cons c cs)
  have "handleCallback c s = s\<lparr>gameState := gameState (handleCallback c s)\<rparr>"
    unfolding handleCallback_def by (cases c) simp_all
  then show ?case using Cons[of "handleCallback c s"]
    by (metis (no_types, lifting) Game.surjective Game.update_convs(2) fold_simps(2))
qed

lemma fold_handleCallback_quiet:
  "quietCalls cs \<Longrightarrow> gameState (fold handleCallback cs s) = gameState s \<or> gameState (fold handleCallback cs s) = GAMEOVER"
proof (induction cs arbitrary: s)
  case Nil
  then show ?case by simp
next
  case (Cons c cs)
  then have q: "quietCalls cs" and c: "c \<noteq> OnGameOver True" unfolding quietCalls_def by auto
  have "gameState (handleCallback c s) = gameState s \<or> gameState (handleCallback c s) = GAMEOVER"
    using c unfolding handleCallback_def by (cases c) auto
  moreover have "gameState (fold handleCallback cs (handleCallback c s)) = gameState (handleCallback c s)
     \<or> gameState (fold handleCallback cs (handleCallback c s)) = GAMEOVER"
    by (rule Cons.IH[OF q])
  ultimately show ?case by auto
qed

lemma fold_handleCallback_won: "gameState (fold handleCallback (cs @ [OnGameOver True]) s) = WON"
  by (simp add: handleCallback_def)

lemma checkCollisions_cases:
  assumes "consume s = (s3, calls3)" "checkCollisions s = (s', calls)"
  shows "(pelletsRef s3 = [] \<and> powerPelletsRef s3 = [] \<and> s' = s3 \<and> calls = calls3 @ [OnGameOver True])
       \<or> (\<not> (pelletsRef s3 = [] \<and> powerPelletsRef s3 = []) \<and> collisionFrame s3 s'
           \<and> (\<exists>extra. calls = calls3 @ extra \<and> quietCalls extra))"
proof (cases "pelletsRef s3 = [] \<and> powerPelletsRef s3 = []")
  case True
  then show ?thesis using assms unfolding checkCollisions_def by (simp add: Let_def)
next
  case False
  then have "ghostCollisions (x (pacmanRef s)) (y (pacmanRef s)) (s3, calls3) = (s', calls)"
    using assms unfolding checkCollisions_def by (auto simp: Let_def)
  from ghostCollisions_frame[OF this] show ?thesis using False by simp
qed

lemma quiet_consume: "consume s = (s3, calls3) \<Longrightarrow> quietCalls calls3"
  using consume_calls[of s s3 calls3] unfolding quietCalls_def by auto

text \<open>
  Claim C3. In \<open>checkCollisions\<close>, after pellets and power pellets are consumed,
  \<^verbatim>\<open>onGameOver(true)\<close> is called if and only if both collections are empty. When it
  is called the function returns the state left by the consumption: no ghost is handled,
  no life is lost, no ghost bonus is scored. In a frame that starts in PLAYING the status
  becomes WON exactly when both collections are empty at its end.
\<close>

theorem win_iff_collections_empty:
  "case consume s of (s3, calls3) \<Rightarrow>
     (case checkCollisions s of (s', calls) \<Rightarrow>
        (OnGameOver True \<in> set calls \<longleftrightarrow> pelletsRef s3 = [] \<and> powerPelletsRef s3 = [])
      \<and> (OnGameOver True \<in> set calls \<longrightarrow>
            s' = s3 \<and> calls = calls3 @ [OnGameOver True] \<and> livesRef s' = livesRef s
          \<and> OnGameOver False \<notin> set calls \<and> (\<forall>n. OnLivesUpdate n \<notin> set calls)
          \<and> (\<forall>n. OnScoreUpdate n \<in> set calls \<longrightarrow> n = scoreRef s3))
      \<and> (gameState s = PLAYING \<longrightarrow>
            (gameState (fold handleCallback calls s') = WON
               \<longleftrightarrow> pelletsRef s' = [] \<and> powerPelletsRef s' = [])))"
proof -
  obtain s3 calls3 where c: "consume s = (s3, calls3)" by fastforce
  obtain s' calls where k: "checkCollisions s = (s', calls)" by fastforce
  note cs = checkCollisions_cases[OF c k]
  have q3: "quietCalls calls3" by (rule quiet_consume[OF c])
  have c3: "calls3 = [] \<or> calls3 = [OnScoreUpdate (scoreRef s3)]" by (rule consume_calls[OF c])
  have A: "OnGameOver True \<in> set calls \<longleftrightarrow> pelletsRef s3 = [] \<and> powerPelletsRef s3 = []"
    using cs q3 unfolding quietCalls_def by auto
  have B: "OnGameOver True \<in> set calls \<Longrightarrow>
            s' = s3 \<and> calls = calls3 @ [OnGameOver True] \<and> livesRef s' = livesRef s
          \<and> OnGameOver False \<notin> set calls \<and> (\<forall>n. OnLivesUpdate n \<notin> set calls)
          \<and> (\<forall>n. OnScoreUpdate n \<in> set calls \<longrightarrow> n = scoreRef s3)"
    using cs A c3 consume_frame(3)[OF c] by auto
  have C: "gameState s = PLAYING \<Longrightarrow>
            (gameState (fold handleCallback calls s') = WON
               \<longleftrightarrow> pelletsRef s' = [] \<and> powerPelletsRef s' = [])"
  proof -
    assume p: "gameState s = PLAYING"
    from cs show ?thesis
    proof
      assume "pelletsRef s3 = [] \<and> powerPelletsRef s3 = [] \<and> s' = s3 \<and> calls = calls3 @ [OnGameOver True]"
      then show ?thesis using fold_handleCallback_won by simp
    next
      assume h: "\<not> (pelletsRef s3 = [] \<and> powerPelletsRef s3 = []) \<and> collisionFrame s3 s'
           \<and> (\<exists>extra. calls = calls3 @ extra \<and> quietCalls extra)"
      then have "quietCalls calls" using q3 unfolding quietCalls_def by auto
      from fold_handleCallback_quiet[OF this, of s']
      have "gameState (fold handleCallback calls s') \<noteq> WON"
        using h p consume_frame(2)[OF c] unfolding collisionFrame_def by auto
      then show ?thesis using h unfolding collisionFrame_def by auto
    qed
  qed
  show ?thesis unfolding c k prod.case using A B C by blast
qed

lemma moveEntity_shape:
  assumes "moveEntity gd modeOf e isGhost = Some e'"
  shows "\<exists>a b d n. e' = e\<lparr>x := a, y := b, dir := d, nextDir := n\<rparr>"
proof -
  obtain t where t: "turnEntity gd isGhost e = Some t"
    using assms unfolding moveEntity_def by (auto split: option.splits)
  have m: "Entity.more e' = Entity.more t" "speed e' = speed t"
    using moveEntity_heading[OF assms t] by simp_all
  have "Entity.more t = Entity.more e" "speed t = speed e"
    using turnEntity_cases[OF t] by auto
  then have "e' = e\<lparr>x := x e', y := y e', dir := dir e', nextDir := nextDir e'\<rparr>"
    using m by (cases e; cases e') simp
  then show ?thesis by blast
qed

lemma decideGhost_shape:
  "decideGhost gd pac r g = Some g' \<Longrightarrow> \<exists>d. g' = g\<lparr>dir := d\<rparr>"
  unfolding decideGhost_def
  by (auto simp: Let_def split: if_splits option.splits intro: exI[of _ "dir g"])

lemma updateGhost_mode: "updateGhost gd pac r g = Some g' \<Longrightarrow> mode g' = mode g"
  unfolding updateGhost_def
  by (auto split: option.splits dest!: decideGhost_shape moveEntity_shape)

lemma updateGhostsFrom_modes:
  "updateGhostsFrom gd pac rnd i gs = Some gs' \<Longrightarrow> map mode gs' = map mode gs"
  by (induction gs arbitrary: i gs') (auto split: option.splits dest: updateGhost_mode)

lemma modesOk_map: "modesOk gs = (\<forall>m \<in> set (map mode gs). m = SCATTER \<or> m = FRIGHTENED)"
  unfolding modesOk_def by auto

lemma allScatter_map: "allScatter gs = (\<forall>m \<in> set (map mode gs). m = SCATTER)"
  unfolding allScatter_def by auto

lemma updateGhosts_modes:
  assumes "updateGhosts gd pac rnd gs = Some gs'"
  shows "modesOk gs' = modesOk gs" "allScatter gs' = allScatter gs"
  using updateGhostsFrom_modes[OF assms[unfolded updateGhosts_def]]
  by (simp_all only: modesOk_map allScatter_map)

lemma decideGhost_total: "gd \<noteq> [] \<Longrightarrow> \<exists>g'. decideGhost gd pac r g = Some g'"
  unfolding decideGhost_def by (simp add: validDirs_nonempty Let_def)

lemma moveEntity_total: "gd \<noteq> [] \<Longrightarrow> \<exists>e'. moveEntity gd modeOf e isGhost = Some e'"
  using turnEntity_total moveEntity_nonempty by blast

lemma updateGhost_total: "gd \<noteq> [] \<Longrightarrow> \<exists>g'. updateGhost gd pac r g = Some g'"
  unfolding updateGhost_def using decideGhost_total[of gd pac r g] moveEntity_total[of gd] by (auto split: option.splits)

lemma updateGhostsFrom_total: "gd \<noteq> [] \<Longrightarrow> \<exists>gs'. updateGhostsFrom gd pac rnd i gs = Some gs'"
proof (induction gs arbitrary: i)
  case Nil
  then show ?case by simp
next
  case (Cons g gs)
  obtain g' where "updateGhost gd pac (rnd i) g = Some g'" using updateGhost_total[OF Cons.prems] by blast
  moreover obtain gs' where "updateGhostsFrom gd pac rnd (Suc i) gs = Some gs'" using Cons by blast
  ultimately show ?case by simp
qed

lemma loop_total: "grid s \<noteq> [] \<Longrightarrow> \<exists>s'. loop rnd s = Some s'"
proof -
  assume g: "grid s \<noteq> []"
  obtain pac where p: "moveEntity (grid s) (\<lambda>e. None) (pacmanRef s) False = Some pac"
    using moveEntity_total[OF g] by blast
  obtain gs where u: "updateGhosts (grid s) pac rnd (ghostsRef s) = Some gs"
    using updateGhostsFrom_total[OF g] unfolding updateGhosts_def by blast
  show ?thesis unfolding loop_def using p u by (auto split: prod.splits)
qed

lemma timerInv_cong:
  "pendingTimeouts s' = pendingTimeouts s \<Longrightarrow> frightenedTimerRef s' = frightenedTimerRef s \<Longrightarrow>
   nextTimeout s' = nextTimeout s \<Longrightarrow> timerInv s' = timerInv s"
  unfolding timerInv_def by simp

lemma consume_timers:
  assumes "consume s = (s3, calls3)" and "timerInv s"
  shows "timerInv s3 \<and> nextTimeout s \<le> nextTimeout s3
       \<and> ((pendingTimeouts s3 = pendingTimeouts s \<and> frightenedTimerRef s3 = frightenedTimerRef s
             \<and> nextTimeout s3 = nextTimeout s \<and> ghostsRef s3 = ghostsRef s)
          \<or> (pendingTimeouts s3 = [nextTimeout s3 - 1] \<and> nextTimeout s < nextTimeout s3
             \<and> (\<forall>g \<in> set (ghostsRef s3). mode g = FRIGHTENED)))"
proof -
  define hit :: "Point \<Rightarrow> bool" where "hit = (\<lambda>p. hypotLess (x p - x (pacmanRef s)) (y p - y (pacmanRef s)) (TILE_SIZE / 2))"
  define n where "n = length (filter hit (powerPelletsRef s))"
  define s1 where "s1 = s\<lparr>scoreRef := scoreRef s + 10 * int (length (filter hit (pelletsRef s))),
                 pelletsRef := filter (\<lambda>p. \<not> hit p) (pelletsRef s)\<rparr>"
  have s3: "s3 = ((powerPelletHit ^^ n) s1)\<lparr>powerPelletsRef := filter (\<lambda>p. \<not> hit p) (powerPelletsRef s)\<rparr>"
    using assms(1) unfolding consume_eq Let_def hit_def n_def s1_def by simp
  have i1: "timerInv s1" using assms(2) unfolding s1_def timerInv_def by simp
  have f1: "nextTimeout s1 = nextTimeout s" "pendingTimeouts s1 = pendingTimeouts s"
    "frightenedTimerRef s1 = frightenedTimerRef s" "ghostsRef s1 = ghostsRef s"
    unfolding s1_def by simp_all
  have i3: "timerInv s3" using hits_timerInv[OF i1, of n] unfolding s3 timerInv_def by simp
  have nx: "nextTimeout s3 = nextTimeout s + n" unfolding s3 using f1 by simp
  show ?thesis
  proof (cases n)
    case 0
    then show ?thesis using i3 f1 unfolding s3 by simp
  next
    case (Suc k)
    then have "0 < n" by simp
    from hits_pending[OF i1 this] show ?thesis using i3 nx Suc unfolding s3 by (simp add: f1)
  qed
qed

lemma consume_ghosts:
  assumes "consume s = (s3, calls3)"
  shows "ghostsRef s3 = ghostsRef s \<or> (\<forall>g \<in> set (ghostsRef s3). mode g = FRIGHTENED)"
proof -
  define hit :: "Point \<Rightarrow> bool" where "hit = (\<lambda>p. hypotLess (x p - x (pacmanRef s)) (y p - y (pacmanRef s)) (TILE_SIZE / 2))"
  define n where "n = length (filter hit (powerPelletsRef s))"
  define s1 where "s1 = s\<lparr>scoreRef := scoreRef s + 10 * int (length (filter hit (pelletsRef s))),
                 pelletsRef := filter (\<lambda>p. \<not> hit p) (pelletsRef s)\<rparr>"
  have s3: "s3 = ((powerPelletHit ^^ n) s1)\<lparr>powerPelletsRef := filter (\<lambda>p. \<not> hit p) (powerPelletsRef s)\<rparr>"
    using assms(1) unfolding consume_eq Let_def hit_def n_def s1_def by simp
  have "ghostsRef s1 = ghostsRef s" unfolding s1_def by simp
  then show ?thesis using hits_modes[of n s1] unfolding s3 by simp
qed

lemma consume_modes:
  assumes "consume s = (s3, calls3)" and "modesOk (ghostsRef s)"
  shows "modesOk (ghostsRef s3)"
  using consume_ghosts[OF assms(1)] assms(2) unfolding modesOk_def by auto

lemma loop_effect:
  assumes "loop rnd s = Some s'" and "timerInv s"
  shows "grid s' = grid s \<and> timerInv s' \<and> nextTimeout s \<le> nextTimeout s'
       \<and> livesRef s' \<le> livesRef s
       \<and> (modesOk (ghostsRef s) \<longrightarrow> modesOk (ghostsRef s'))
       \<and> ((pendingTimeouts s' = pendingTimeouts s \<and> nextTimeout s' = nextTimeout s
             \<and> (allScatter (ghostsRef s) \<longrightarrow> allScatter (ghostsRef s')))
          \<or> (pendingTimeouts s' = [nextTimeout s' - 1] \<and> nextTimeout s < nextTimeout s'))"
proof (cases "gameState s = PLAYING")
  case False
  then have "s' = s" using assms(1) unfolding loop_def by simp
  then show ?thesis using assms(2) by simp
next
  case True
  obtain pac gs sc calls where
    u: "updateGhosts (grid s) pac rnd (ghostsRef s) = Some gs"
    and k: "checkCollisions (s\<lparr>pacmanRef := pac, ghostsRef := gs\<rparr>) = (sc, calls)"
    and s': "s' = fold handleCallback calls sc"
    using assms(1) True unfolding loop_def by (auto split: option.splits prod.splits)
  define s0 where "s0 = s\<lparr>pacmanRef := pac, ghostsRef := gs\<rparr>"
  obtain s3 calls3 where c: "consume s0 = (s3, calls3)" by fastforce
  have i0: "timerInv s0" using assms(2) unfolding s0_def timerInv_def by simp
  have f0: "grid s0 = grid s" "pendingTimeouts s0 = pendingTimeouts s" "nextTimeout s0 = nextTimeout s"
    "ghostsRef s0 = gs"
    unfolding s0_def by simp_all
  note t3 = consume_timers[OF c i0]
  have fr: "collisionFrame s3 sc"
    using checkCollisions_cases[OF c k[folded s0_def]] collisionFrame_refl by auto
  have e: "grid s' = grid sc" "pendingTimeouts s' = pendingTimeouts sc" "nextTimeout s' = nextTimeout sc"
    "frightenedTimerRef s' = frightenedTimerRef sc" "ghostsRef s' = ghostsRef sc"
    "livesRef s' = livesRef sc"
    unfolding s' by (subst fold_handleCallback_frame, simp)+
  have lv: "livesRef s' \<le> livesRef s"
    using e fr consume_frame(3)[OF c] unfolding collisionFrame_def s0_def by simp
  have g: "grid s' = grid s"
    using e fr consume_frame(1)[OF c] f0 unfolding collisionFrame_def by simp
  have ti: "timerInv s'"
    using t3 e fr unfolding collisionFrame_def timerInv_def by simp
  have m: "modesOk (ghostsRef s) \<Longrightarrow> modesOk (ghostsRef s')"
    using updateGhosts_modes(1)[OF u] consume_modes[OF c] f0 e fr unfolding collisionFrame_def by simp
  have sc: "allScatter (ghostsRef s) \<Longrightarrow> ghostsRef s3 = ghostsRef s0 \<Longrightarrow> allScatter (ghostsRef s')"
    using updateGhosts_modes(2)[OF u] f0 e fr unfolding collisionFrame_def by simp
  show ?thesis using g ti lv m sc t3 e fr f0 unfolding collisionFrame_def by auto
qed

lemma newGhost_mode [simp]: "mode (newGhost p d i) = SCATTER"
  unfolding newGhost_def by simp

lemma initLevel_frame [simp]:
  "grid (initLevel s) = grid s" "gameState (initLevel s) = gameState s"
  "pendingTimeouts (initLevel s) = pendingTimeouts s"
  "frightenedTimerRef (initLevel s) = frightenedTimerRef s"
  "nextTimeout (initLevel s) = nextTimeout s"
  unfolding initLevel_def by (simp_all add: Let_def)

lemma initLevel_allScatter: "grid s \<noteq> [] \<Longrightarrow> allScatter (ghostsRef (initLevel s))"
  unfolding initLevel_def allScatter_def by (auto simp: Let_def)

lemma resetRound_frame [simp]:
  "grid (resetRound s) = grid s" "gameState (resetRound s) = gameState s"
  "pendingTimeouts (resetRound s) = pendingTimeouts s"
  "frightenedTimerRef (resetRound s) = frightenedTimerRef s"
  "nextTimeout (resetRound s) = nextTimeout s"
  "ghostsRef (resetRound s) = ghostsRef (initLevel s)"
  "livesRef (resetRound s) = 3" "scoreRef (resetRound s) = 0"
  unfolding resetRound_def by simp_all

lemma resetRound_ok:
  assumes "grid s \<noteq> []" "timerInv s"
  shows "timerInv (resetRound s)" "allScatter (ghostsRef (resetRound s))" "grid (resetRound s) \<noteq> []"
  using assms initLevel_allScatter[OF assms(1)] unfolding timerInv_def by simp_all

lemma frightenedExpiry_frame [simp]:
  "grid (frightenedExpiry s) = grid s"
  "pendingTimeouts (frightenedExpiry s) = pendingTimeouts s"
  "frightenedTimerRef (frightenedExpiry s) = frightenedTimerRef s"
  "nextTimeout (frightenedExpiry s) = nextTimeout s"
  "allScatter (ghostsRef (frightenedExpiry s))"
  unfolding frightenedExpiry_def allScatter_def by simp_all

lemma timerInv_fire: "timerInv s \<Longrightarrow> timerInv (s'\<lparr>pendingTimeouts := removeAll t (pendingTimeouts s)\<rparr>)"
  if "frightenedTimerRef s' = frightenedTimerRef s" "nextTimeout s' = nextTimeout s"
  using that unfolding timerInv_def
  by (auto intro: le_trans[OF length_removeAll_less_eq])

lemma handleKeyDown_frame [simp]:
  "grid (handleKeyDown k s) = grid s" "ghostsRef (handleKeyDown k s) = ghostsRef s"
  "pendingTimeouts (handleKeyDown k s) = pendingTimeouts s"
  "frightenedTimerRef (handleKeyDown k s) = frightenedTimerRef s"
  "nextTimeout (handleKeyDown k s) = nextTimeout s"
  unfolding handleKeyDown_def by simp_all

lemma acceptGrid_cases:
  "acceptGrid newGrid s = s \<or> (newGrid \<noteq> [] \<and> acceptGrid newGrid s = resetRound (s\<lparr>grid := newGrid\<rparr>))"
  unfolding acceptGrid_def by auto

lemma step_gameInv:
  assumes "gameInv s" and "step ev s = Some s'"
  shows "gameInv s'"
proof (cases ev)
  case (Frame rnd)
  then have "loop rnd s = Some s'" using assms(2) unfolding step_def by simp
  from loop_effect[OF this] show ?thesis using assms(1) unfolding gameInv_def by simp
next
  case (KeyDown k)
  then have "s' = handleKeyDown k s" using assms(2) unfolding step_def by simp
  then show ?thesis using assms(1) unfolding gameInv_def timerInv_def by simp
next
  case StartGame
  then have "s' = s \<or> s' = resetRound (s\<lparr>gameState := PLAYING\<rparr>)"
    using assms(2) unfolding step_def startGame_def by (auto split: if_splits)
  moreover have "gameInv (resetRound (s\<lparr>gameState := PLAYING\<rparr>))"
    using resetRound_ok[of "s\<lparr>gameState := PLAYING\<rparr>"] assms(1) allScatter_modesOk
    unfolding gameInv_def timerInv_def by simp
  ultimately show ?thesis using assms(1) by auto
next
  case PauseGame
  then show ?thesis using assms unfolding step_def gameInv_def timerInv_def by (auto split: if_splits)
next
  case ResumeGame
  then show ?thesis using assms unfolding step_def gameInv_def timerInv_def by (auto split: if_splits)
next
  case RequestLevel
  then show ?thesis using assms unfolding step_def gameInv_def timerInv_def by auto
next
  case (LevelArrives newGrid)
  then have s': "s' = acceptGrid newGrid s" using assms(2) unfolding step_def by simp
  have "newGrid \<noteq> [] \<Longrightarrow> gameInv (resetRound (s\<lparr>grid := newGrid\<rparr>))"
    using resetRound_ok[of "s\<lparr>grid := newGrid\<rparr>"] assms(1) allScatter_modesOk
    unfolding gameInv_def timerInv_def by simp
  then show ?thesis using acceptGrid_cases[of newGrid s] assms(1) unfolding s' by auto
next
  case (TimeoutFires t)
  then have "s' = s \<or> s' = (frightenedExpiry s)\<lparr>pendingTimeouts := removeAll t (pendingTimeouts s)\<rparr>"
    using assms(2) unfolding step_def by (auto split: if_splits)
  moreover have "gameInv ((frightenedExpiry s)\<lparr>pendingTimeouts := removeAll t (pendingTimeouts s)\<rparr>)"
    using assms(1) timerInv_fire[of "frightenedExpiry s" s t] allScatter_modesOk[OF frightenedExpiry_frame(5)[of s]]
    unfolding gameInv_def by simp
  ultimately show ?thesis using assms(1) by auto
qed

lemma step_total: "grid s \<noteq> [] \<Longrightarrow> \<exists>s'. step ev s = Some s'"
  unfolding step_def using loop_total by (cases ev) auto

lemma mounted_gameInv: "gameInv mounted"
  unfolding gameInv_def mounted_def
  using resetRound_ok(2)[THEN allScatter_modesOk]
  by (simp add: timerInv_def DEFAULT_LEVEL_GRID_def)

lemma reachable_gameInv: "reachable s \<Longrightarrow> gameInv s"
  by (induction rule: reachable.induct) (auto intro: mounted_gameInv step_gameInv)

text \<open>A frame never raises the lives count; only the reset effect sets it, to 3.\<close>

lemma frame_never_raises_lives:
  assumes "reachable s" and "step (Frame rnd) s = Some s'"
  shows "livesRef s' \<le> livesRef s"
proof -
  have "timerInv s" using reachable_gameInv[OF assms(1)] unfolding gameInv_def by simp
  moreover have "loop rnd s = Some s'" using assms(2) unfolding step_def by simp
  ultimately show ?thesis using loop_effect by blast
qed

text \<open>
  Claim C10. In every reachable state every ghost is in Scatter or Frightened; every
  event from such a state yields a state (no TypeError ends a frame) with the same
  property.
\<close>

theorem ghost_modes_scatter_or_frightened:
  assumes "reachable s"
  shows "(\<forall>g \<in> set (ghostsRef s). mode g = SCATTER \<or> mode g = FRIGHTENED)
       \<and> (\<forall>ev. \<exists>s'. step ev s = Some s'
                  \<and> (\<forall>g \<in> set (ghostsRef s'). mode g = SCATTER \<or> mode g = FRIGHTENED))"
proof -
  have i: "gameInv s" by (rule reachable_gameInv[OF assms])
  have "\<exists>s'. step ev s = Some s' \<and> modesOk (ghostsRef s')" for ev
  proof -
    obtain s' where s': "step ev s = Some s'" using step_total[of s ev] i unfolding gameInv_def by blast
    from step_gameInv[OF i s'] show ?thesis using s' unfolding gameInv_def by blast
  qed
  then show ?thesis using i unfolding gameInv_def modesOk_def by blast
qed

lemma timerInv_pending_cases:
  "timerInv s \<Longrightarrow> pendingTimeouts s = [] \<or> (\<exists>t. pendingTimeouts s = [t] \<and> frightenedTimerRef s = Some t)"
  unfolding timerInv_def by (cases "pendingTimeouts s"; cases "tl (pendingTimeouts s)") auto

lemma collideGhost_frightened:
  assumes "mode (ghostsRef s ! i) = FRIGHTENED"
  shows "fst (collideGhost a b i (s, calls)) =
     (if hypotLess (x (ghostsRef s ! i) - a) (y (ghostsRef s ! i) - b) (TILE_SIZE * (4 / 5))
      then s\<lparr>scoreRef := scoreRef s + 200,
             ghostsRef := (ghostsRef s)[i := (ghostsRef s ! i)
                \<lparr>x := orDefault (map_option x (gateRef s)) (TILE_SIZE * 10),
                 y := orDefault (map_option y (gateRef s)) (TILE_SIZE * 10) + TILE_SIZE,
                 mode := SCATTER\<rparr>]\<rparr>
      else s)"
  using assms unfolding collideGhost_def by (simp add: Let_def)

lemma fold_collide_frightened:
  assumes "\<forall>j. i \<le> j \<and> j < length (ghostsRef s) \<longrightarrow> mode (ghostsRef s ! j) = FRIGHTENED"
    and "n = length (ghostsRef s)"
  shows "fst (fold (collideGhost a b) [i..<n] (s, calls)) =
     s\<lparr>scoreRef := scoreRef s + 200 * int (length (filter
                        (\<lambda>g. hypotLess (x g - a) (y g - b) (TILE_SIZE * (4 / 5))) (drop i (ghostsRef s)))),
       ghostsRef := take i (ghostsRef s) @ map
          (\<lambda>g. if hypotLess (x g - a) (y g - b) (TILE_SIZE * (4 / 5))
                then g\<lparr>x := orDefault (map_option x (gateRef s)) (TILE_SIZE * 10),
                       y := orDefault (map_option y (gateRef s)) (TILE_SIZE * 10) + TILE_SIZE,
                       mode := SCATTER\<rparr>
                else g) (drop i (ghostsRef s))\<rparr>"
  using assms
proof (induction "n - i" arbitrary: i s calls)
  case 0
  then show ?case by simp
next
  case (Suc k)
  then have lt: "i < n" by simp
  let ?gs = "ghostsRef s"
  let ?near = "\<lambda>g. hypotLess (x g - a) (y g - b) (TILE_SIZE * (4 / 5))"
  let ?eat = "\<lambda>g::Ghost. g\<lparr>x := orDefault (map_option x (gateRef s)) (TILE_SIZE * 10),
                       y := orDefault (map_option y (gateRef s)) (TILE_SIZE * 10) + TILE_SIZE,
                       mode := SCATTER\<rparr>"
  have fr: "mode (?gs ! i) = FRIGHTENED" using Suc.prems lt by simp
  obtain s1 calls1 where c: "collideGhost a b i (s, calls) = (s1, calls1)" by fastforce
  have s1: "s1 = (if ?near (?gs ! i) then s\<lparr>scoreRef := scoreRef s + 200, ghostsRef := ?gs[i := ?eat (?gs ! i)]\<rparr> else s)"
    using collideGhost_frightened[OF fr, of a b calls] c by simp
  have len1: "length (ghostsRef s1) = length ?gs" and gate1: "gateRef s1 = gateRef s"
    unfolding s1 by simp_all
  have tl1: "\<forall>j. Suc i \<le> j \<and> j < length (ghostsRef s1) \<longrightarrow> mode (ghostsRef s1 ! j) = FRIGHTENED"
    using Suc.prems(1) unfolding s1 by simp
  have k: "k = n - Suc i" using Suc.hyps(2) by simp
  have n1: "n = length (ghostsRef s1)" using Suc.prems(2) len1 by simp
  have split: "drop i ?gs = ?gs ! i # drop (Suc i) ?gs"
    using lt Suc.prems(2) by (simp add: Cons_nth_drop_Suc)
  have tk: "take (Suc i) (ghostsRef s1) = take i ?gs @ [if ?near (?gs ! i) then ?eat (?gs ! i) else ?gs ! i]"
    using lt Suc.prems(2) unfolding s1 by (simp add: take_Suc_conv_app_nth)
  have dr: "drop (Suc i) (ghostsRef s1) = drop (Suc i) ?gs" unfolding s1 by simp
  have "fst (fold (collideGhost a b) [i..<n] (s, calls)) = fst (fold (collideGhost a b) [Suc i..<n] (s1, calls1))"
    using lt c by (simp add: upt_conv_Cons)
  also note Suc.hyps(1)[OF k tl1 n1]
  finally show ?case
    unfolding gate1 tk dr split unfolding s1 by simp
qed

lemma hits_ghosts:
  "0 < n \<Longrightarrow> ghostsRef ((powerPelletHit ^^ n) s) = map (\<lambda>g. g\<lparr>mode := FRIGHTENED\<rparr>) (ghostsRef s)"
proof (induction n)
  case 0
  then show ?case by simp
next
  case (Suc n)
  show ?case
  proof (cases n)
    case 0
    then show ?thesis by simp
  next
    case (Suc m)
    then show ?thesis using Suc.IH by (simp add: comp_def)
  qed
qed

lemma checkCollisions_fst:
  "fst (checkCollisions s0) =
     (let s3 = fst (consume s0)
      in if pelletsRef s3 = [] \<and> powerPelletsRef s3 = [] then s3
         else fst (fold (collideGhost (x (pacmanRef s0)) (y (pacmanRef s0)))
                     [0..<length (ghostsRef s3)] (s3, snd (consume s0))))"
  unfolding checkCollisions_def ghostCollisions_def by (simp add: Let_def split: prod.splits)

lemma checkCollisions_power:
  fixes s0 :: Game
  defines "hit \<equiv> \<lambda>p::Point. hypotLess (x p - x (pacmanRef s0)) (y p - y (pacmanRef s0)) (TILE_SIZE / 2)"
    and "near \<equiv> \<lambda>g::Ghost. hypotLess (x g - x (pacmanRef s0)) (y g - y (pacmanRef s0)) (TILE_SIZE * (4 / 5))"
  defines "n \<equiv> length (filter hit (powerPelletsRef s0))"
    and "won \<equiv> (filter (\<lambda>p. \<not> hit p) (pelletsRef s0) = [] \<and> filter (\<lambda>p. \<not> hit p) (powerPelletsRef s0) = [])"
    and "gx \<equiv> orDefault (map_option x (gateRef s0)) (TILE_SIZE * 10)"
    and "gy \<equiv> orDefault (map_option y (gateRef s0)) (TILE_SIZE * 10) + TILE_SIZE"
  defines "s' \<equiv> fst (checkCollisions s0)"
  assumes inv: "timerInv s0"
  shows "powerPelletsRef s' = filter (\<lambda>p. \<not> hit p) (powerPelletsRef s0)"
    and "pelletsRef s' = filter (\<lambda>p. \<not> hit p) (pelletsRef s0)"
    and "length (pendingTimeouts s') \<le> 1"
    and "0 < n \<Longrightarrow> scoreRef s' = scoreRef s0 + 10 * int (length (filter hit (pelletsRef s0))) + 50 * int n
                       + (if won then 0 else 200 * int (length (filter near (ghostsRef s0))))"
    and "0 < n \<Longrightarrow> ghostsRef s' = map (\<lambda>g. if \<not> won \<and> near g then g\<lparr>x := gx, y := gy, mode := SCATTER\<rparr>
                                            else g\<lparr>mode := FRIGHTENED\<rparr>) (ghostsRef s0)"
    and "0 < n \<Longrightarrow> livesRef s' = livesRef s0"
    and "0 < n \<Longrightarrow> frightenedTimerRef s' = Some (nextTimeout s0 + n - 1)
                     \<and> pendingTimeouts s' = [nextTimeout s0 + n - 1]
                     \<and> nextTimeout s0 + n - 1 \<notin> set (pendingTimeouts s0)"
proof -
  define s1 where "s1 = s0\<lparr>scoreRef := scoreRef s0 + 10 * int (length (filter hit (pelletsRef s0))),
                 pelletsRef := filter (\<lambda>p. \<not> hit p) (pelletsRef s0)\<rparr>"
  define s3 where "s3 = ((powerPelletHit ^^ n) s1)\<lparr>powerPelletsRef := filter (\<lambda>p. \<not> hit p) (powerPelletsRef s0)\<rparr>"
  have c: "fst (consume s0) = s3"
    unfolding consume_eq Let_def s3_def s1_def n_def hit_def by simp
  have i1: "timerInv s1" using inv unfolding s1_def timerInv_def by simp
  have f3: "pelletsRef s3 = filter (\<lambda>p. \<not> hit p) (pelletsRef s0)"
    "powerPelletsRef s3 = filter (\<lambda>p. \<not> hit p) (powerPelletsRef s0)"
    "livesRef s3 = livesRef s0" "gateRef s3 = gateRef s0"
    "scoreRef s3 = scoreRef s0 + 10 * int (length (filter hit (pelletsRef s0))) + 50 * int n"
    "nextTimeout s3 = nextTimeout s0 + n"
    unfolding s3_def s1_def by simp_all
  have w3: "(pelletsRef s3 = [] \<and> powerPelletsRef s3 = []) = won" unfolding won_def f3 by simp
  have i3: "timerInv s3" using hits_timerInv[OF i1, of n] unfolding s3_def timerInv_def by simp
  obtain sc calls where k: "checkCollisions s0 = (sc, calls)" by fastforce
  obtain calls3 where c3: "consume s0 = (s3, calls3)" using c by (cases "consume s0") simp
  have s': "s' = sc" unfolding s'_def k by simp
  have fr: "collisionFrame s3 sc"
    using checkCollisions_cases[OF c3 k] collisionFrame_refl by auto
  show "powerPelletsRef s' = filter (\<lambda>p. \<not> hit p) (powerPelletsRef s0)"
    and "pelletsRef s' = filter (\<lambda>p. \<not> hit p) (pelletsRef s0)"
    using fr f3 unfolding s' collisionFrame_def by simp_all
  show "length (pendingTimeouts s') \<le> 1"
    using fr i3 unfolding s' collisionFrame_def timerInv_def by simp
  have open3: "s' = (if won then s3
         else fst (fold (collideGhost (x (pacmanRef s0)) (y (pacmanRef s0)))
                     [0..<length (ghostsRef s3)] (s3, calls3)))"
    unfolding s'_def checkCollisions_fst Let_def c c3 using w3 by auto
  {
    assume n: "0 < n"
    have g3: "ghostsRef s3 = map (\<lambda>g. g\<lparr>mode := FRIGHTENED\<rparr>) (ghostsRef s0)"
      unfolding s3_def using hits_ghosts[OF n, of s1] unfolding s1_def by simp
    have allf: "\<forall>j. 0 \<le> j \<and> j < length (ghostsRef s3) \<longrightarrow> mode (ghostsRef s3 ! j) = FRIGHTENED"
      unfolding g3 by simp
    note fold = fold_collide_frightened[OF allf refl, of "x (pacmanRef s0)" "y (pacmanRef s0)" calls3]
    have final: "s' = (if won then s3
       else s3\<lparr>scoreRef := scoreRef s3 + 200 * int (length (filter near (ghostsRef s3))),
               ghostsRef := map (\<lambda>g. if near g then g\<lparr>x := gx, y := gy, mode := SCATTER\<rparr> else g) (ghostsRef s3)\<rparr>)"
      unfolding open3 fold near_def gx_def gy_def f3 by simp
    have cnt: "length (filter near (ghostsRef s3)) = length (filter near (ghostsRef s0))"
      unfolding g3 near_def by (simp add: filter_map comp_def)
    show "scoreRef s' = scoreRef s0 + 10 * int (length (filter hit (pelletsRef s0))) + 50 * int n
                       + (if won then 0 else 200 * int (length (filter near (ghostsRef s0))))"
      unfolding final by (simp add: cnt f3)
    show "ghostsRef s' = map (\<lambda>g. if \<not> won \<and> near g then g\<lparr>x := gx, y := gy, mode := SCATTER\<rparr>
                                            else g\<lparr>mode := FRIGHTENED\<rparr>) (ghostsRef s0)"
      unfolding final near_def by (simp add: g3 comp_def)
    show "livesRef s' = livesRef s0" unfolding final using f3 by simp
    have p3: "pendingTimeouts s3 = [nextTimeout s0 + n - 1]" "frightenedTimerRef s3 = Some (nextTimeout s0 + n - 1)"
      using hits_pending[OF i1 n] unfolding s3_def s1_def by simp_all
    have "\<forall>t \<in> set (pendingTimeouts s0). t < nextTimeout s0" using inv unfolding timerInv_def by auto
    then have "nextTimeout s0 + n - 1 \<notin> set (pendingTimeouts s0)" using n by fastforce
    then show "frightenedTimerRef s' = Some (nextTimeout s0 + n - 1)
                     \<and> pendingTimeouts s' = [nextTimeout s0 + n - 1]
                     \<and> nextTimeout s0 + n - 1 \<notin> set (pendingTimeouts s0)"
      using p3 fr unfolding s' collisionFrame_def by simp
  }
qed

text \<open>
  Claim C6. In a reachable state at most one expiry is pending. \<open>checkCollisions\<close>, run
  on the positions the movement of a frame left, removes the power pellets within half a
  tile of the player. If one was hit, the score grows by 50 for each (10 for each pellet,
  200 for each ghost eaten), every ghost is set to Frightened before the ghosts are
  handled, so that a ghost within 0.8 of a tile is eaten and sent to the gate in Scatter
  and no life is lost, the ref holds a fresh handle, and that handle is the only pending
  expiry: an earlier one is cancelled. The state a frame ends in is the one
  \<open>checkCollisions\<close> returns, up to the status. When a pending expiry fires, every ghost
  is in Scatter and nothing is pending.
\<close>

theorem power_pellet_restarts_single_timer:
  assumes "reachable s"
  shows "length (pendingTimeouts s) \<le> 1
       \<and> (\<forall>pac gs. case checkCollisions (s\<lparr>pacmanRef := pac, ghostsRef := gs\<rparr>) of (s', calls) \<Rightarrow>
            (let hit = (\<lambda>p. hypotLess (x p - x pac) (y p - y pac) (TILE_SIZE / 2));
                 near = (\<lambda>g. hypotLess (x g - x pac) (y g - y pac) (TILE_SIZE * (4 / 5)));
                 n = length (filter hit (powerPelletsRef s));
                 h = nextTimeout s + n - 1;
                 won = (filter (\<lambda>p. \<not> hit p) (pelletsRef s) = []
                        \<and> filter (\<lambda>p. \<not> hit p) (powerPelletsRef s) = []);
                 gx = orDefault (map_option x (gateRef s)) (TILE_SIZE * 10);
                 gy = orDefault (map_option y (gateRef s)) (TILE_SIZE * 10) + TILE_SIZE
             in powerPelletsRef s' = filter (\<lambda>p. \<not> hit p) (powerPelletsRef s)
              \<and> length (pendingTimeouts s') \<le> 1
              \<and> (0 < n \<longrightarrow>
                    scoreRef s' = scoreRef s + 10 * int (length (filter hit (pelletsRef s))) + 50 * int n
                                  + (if won then 0 else 200 * int (length (filter near gs)))
                  \<and> ghostsRef s' = map (\<lambda>g. if \<not> won \<and> near g
                                               then g\<lparr>x := gx, y := gy, mode := SCATTER\<rparr>
                                               else g\<lparr>mode := FRIGHTENED\<rparr>) gs
                  \<and> livesRef s' = livesRef s
                  \<and> frightenedTimerRef s' = Some h
                  \<and> pendingTimeouts s' = [h]
                  \<and> h \<notin> set (pendingTimeouts s))))
       \<and> (\<forall>rnd. gameState s = PLAYING \<longrightarrow>
            (\<exists>pac gs s'. moveEntity (grid s) Map.empty (pacmanRef s) False = Some pac
                \<and> updateGhosts (grid s) pac rnd (ghostsRef s) = Some gs
                \<and> step (Frame rnd) s = Some s'
                \<and> s' = (fst (checkCollisions (s\<lparr>pacmanRef := pac, ghostsRef := gs\<rparr>)))
                          \<lparr>gameState := gameState s'\<rparr>))
       \<and> (\<forall>t \<in> set (pendingTimeouts s). \<forall>s'. step (TimeoutFires t) s = Some s' \<longrightarrow>
             (\<forall>g \<in> set (ghostsRef s'). mode g = SCATTER) \<and> pendingTimeouts s' = [])"
proof -
  have gi: "gameInv s" by (rule reachable_gameInv[OF assms])
  then have i: "timerInv s" and g: "grid s \<noteq> []" unfolding gameInv_def by simp_all
  have A: "length (pendingTimeouts s) \<le> 1" using i unfolding timerInv_def by simp
  have B: "case checkCollisions (s\<lparr>pacmanRef := pac, ghostsRef := gs\<rparr>) of (s', calls) \<Rightarrow>
            (let hit = (\<lambda>p. hypotLess (x p - x pac) (y p - y pac) (TILE_SIZE / 2));
                 near = (\<lambda>g. hypotLess (x g - x pac) (y g - y pac) (TILE_SIZE * (4 / 5)));
                 n = length (filter hit (powerPelletsRef s));
                 h = nextTimeout s + n - 1;
                 won = (filter (\<lambda>p. \<not> hit p) (pelletsRef s) = []
                        \<and> filter (\<lambda>p. \<not> hit p) (powerPelletsRef s) = []);
                 gx = orDefault (map_option x (gateRef s)) (TILE_SIZE * 10);
                 gy = orDefault (map_option y (gateRef s)) (TILE_SIZE * 10) + TILE_SIZE
             in powerPelletsRef s' = filter (\<lambda>p. \<not> hit p) (powerPelletsRef s)
              \<and> length (pendingTimeouts s') \<le> 1
              \<and> (0 < n \<longrightarrow>
                    scoreRef s' = scoreRef s + 10 * int (length (filter hit (pelletsRef s))) + 50 * int n
                                  + (if won then 0 else 200 * int (length (filter near gs)))
                  \<and> ghostsRef s' = map (\<lambda>g. if \<not> won \<and> near g
                                               then g\<lparr>x := gx, y := gy, mode := SCATTER\<rparr>
                                               else g\<lparr>mode := FRIGHTENED\<rparr>) gs
                  \<and> livesRef s' = livesRef s
                  \<and> frightenedTimerRef s' = Some h
                  \<and> pendingTimeouts s' = [h]
                  \<and> h \<notin> set (pendingTimeouts s)))" for pac gs
  proof -
    define s0 where "s0 = s\<lparr>pacmanRef := pac, ghostsRef := gs\<rparr>"
    have i0: "timerInv s0" using i unfolding s0_def timerInv_def by simp
    have f: "pacmanRef s0 = pac" "ghostsRef s0 = gs" "powerPelletsRef s0 = powerPelletsRef s"
      "pelletsRef s0 = pelletsRef s" "scoreRef s0 = scoreRef s" "livesRef s0 = livesRef s"
      "gateRef s0 = gateRef s" "nextTimeout s0 = nextTimeout s" "pendingTimeouts s0 = pendingTimeouts s"
      unfolding s0_def by simp_all
    note p = checkCollisions_power[OF i0, unfolded f]
    show ?thesis
      unfolding s0_def[symmetric] Let_def
      using p by (cases "checkCollisions s0") simp
  qed
  have C: "\<exists>pac gs s'. moveEntity (grid s) Map.empty (pacmanRef s) False = Some pac
                \<and> updateGhosts (grid s) pac rnd (ghostsRef s) = Some gs
                \<and> step (Frame rnd) s = Some s'
                \<and> s' = (fst (checkCollisions (s\<lparr>pacmanRef := pac, ghostsRef := gs\<rparr>)))
                          \<lparr>gameState := gameState s'\<rparr>" if pl: "gameState s = PLAYING" for rnd
  proof -
    obtain pac where p: "moveEntity (grid s) Map.empty (pacmanRef s) False = Some pac"
      using moveEntity_total[OF g] by blast
    obtain gs where u: "updateGhosts (grid s) pac rnd (ghostsRef s) = Some gs"
      using updateGhostsFrom_total[OF g] unfolding updateGhosts_def by blast
    obtain sc calls where k: "checkCollisions (s\<lparr>pacmanRef := pac, ghostsRef := gs\<rparr>) = (sc, calls)"
      by fastforce
    have st: "step (Frame rnd) s = Some (fold handleCallback calls sc)"
      unfolding step_def loop_def using pl p u k by simp
    have "fold handleCallback calls sc = sc\<lparr>gameState := gameState (fold handleCallback calls sc)\<rparr>"
      by (rule fold_handleCallback_frame)
    then show ?thesis using p u st k by auto
  qed
  have D: "step (TimeoutFires t) s = Some s' \<Longrightarrow> t \<in> set (pendingTimeouts s) \<Longrightarrow>
             (\<forall>g \<in> set (ghostsRef s'). mode g = SCATTER) \<and> pendingTimeouts s' = []" for t s'
    using timerInv_pending_cases[OF i] frightenedExpiry_frame(5)[of s]
    unfolding step_def allScatter_def by auto
  show ?thesis using A B C D by blast
qed

lemma step_staleHarmless:
  assumes "staleHarmless t s" and "step ev s = Some s'"
  shows "staleHarmless t s'"
proof (cases ev)
  case (Frame rnd)
  then have "loop rnd s = Some s'" using assms(2) unfolding step_def by simp
  from loop_effect[OF this] show ?thesis using assms(1) unfolding staleHarmless_def by auto
next
  case (KeyDown k)
  then have "s' = handleKeyDown k s" using assms(2) unfolding step_def by simp
  then show ?thesis using assms(1) unfolding staleHarmless_def timerInv_def by simp
next
  case StartGame
  then have "s' = s \<or> s' = resetRound (s\<lparr>gameState := PLAYING\<rparr>)"
    using assms(2) unfolding step_def startGame_def by (auto split: if_splits)
  moreover have "staleHarmless t (resetRound (s\<lparr>gameState := PLAYING\<rparr>))"
    using resetRound_ok[of "s\<lparr>gameState := PLAYING\<rparr>"] assms(1)
    unfolding staleHarmless_def timerInv_def by simp
  ultimately show ?thesis using assms(1) by auto
next
  case PauseGame
  then show ?thesis using assms unfolding step_def staleHarmless_def timerInv_def by (auto split: if_splits)
next
  case ResumeGame
  then show ?thesis using assms unfolding step_def staleHarmless_def timerInv_def by (auto split: if_splits)
next
  case RequestLevel
  then show ?thesis using assms unfolding step_def staleHarmless_def timerInv_def by auto
next
  case (LevelArrives newGrid)
  then have s': "s' = acceptGrid newGrid s" using assms(2) unfolding step_def by simp
  have "newGrid \<noteq> [] \<Longrightarrow> staleHarmless t (resetRound (s\<lparr>grid := newGrid\<rparr>))"
    using resetRound_ok[of "s\<lparr>grid := newGrid\<rparr>"] assms(1)
    unfolding staleHarmless_def timerInv_def by simp
  then show ?thesis using acceptGrid_cases[of newGrid s] assms(1) unfolding s' by auto
next
  case (TimeoutFires u)
  then have "s' = s \<or> s' = (frightenedExpiry s)\<lparr>pendingTimeouts := removeAll u (pendingTimeouts s)\<rparr>"
    using assms(2) unfolding step_def by (auto split: if_splits)
  moreover have "staleHarmless t ((frightenedExpiry s)\<lparr>pendingTimeouts := removeAll u (pendingTimeouts s)\<rparr>)"
    using assms(1) timerInv_fire[of "frightenedExpiry s" s u]
    unfolding staleHarmless_def by simp
  ultimately show ?thesis using assms(1) by auto
qed

lemma run_staleHarmless:
  "staleHarmless t s \<Longrightarrow> run evs s = Some s' \<Longrightarrow> staleHarmless t s'"
  by (induction evs arbitrary: s) (auto split: option.splits dest: step_staleHarmless)

lemma frightenedExpiry_idle: "allScatter (ghostsRef s) \<Longrightarrow> frightenedExpiry s = s"
proof -
  assume a: "allScatter (ghostsRef s)"
  have "map (\<lambda>g. g\<lparr>mode := SCATTER\<rparr>) (ghostsRef s) = map (\<lambda>g. g) (ghostsRef s)"
    using a by (intro map_cong) (auto simp: allScatter_def)
  then show ?thesis unfolding frightenedExpiry_def by simp
qed

text \<open>A stale expiry after a round reset.\<close>

lemma stale_expiry_after_reset_changes_no_ghost:
  assumes "reachable s" and "t \<in> set (pendingTimeouts s)"
    and "s1 = startGame s \<or> (5 < length newGrid \<and> 5 < length (newGrid ! 0) \<and> s1 = acceptGrid newGrid s)"
    and "run evs s1 = Some s2"
  shows "pendingTimeouts s1 = pendingTimeouts s \<and> frightenedTimerRef s1 = frightenedTimerRef s
       \<and> (t \<in> set (pendingTimeouts s2) \<longrightarrow>
            (\<exists>s3. step (TimeoutFires t) s2 = Some s3 \<and> ghostsRef s3 = ghostsRef s2))"
proof -
  have i: "gameInv s" by (rule reachable_gameInv[OF assms(1)])
  then have ti: "timerInv s" and g: "grid s \<noteq> []" unfolding gameInv_def by simp_all
  have lt: "t < nextTimeout s" using ti assms(2) unfolding timerInv_def by auto
  have ng: "5 < length newGrid \<Longrightarrow> newGrid \<noteq> []" by auto
  have s1: "s1 = resetRound (s\<lparr>gameState := PLAYING\<rparr>)
          \<or> (newGrid \<noteq> [] \<and> s1 = resetRound (s\<lparr>grid := newGrid\<rparr>))"
    using assms(3) ng unfolding startGame_def acceptGrid_def by auto
  have A: "pendingTimeouts s1 = pendingTimeouts s \<and> frightenedTimerRef s1 = frightenedTimerRef s"
    using s1 by auto
  have r: "staleHarmless t (resetRound u)"
    if "grid u \<noteq> []" "timerInv u" "nextTimeout u = nextTimeout s" for u
    using resetRound_ok[OF that(1,2)] that(3) lt unfolding staleHarmless_def by simp
  have "timerInv (s\<lparr>gameState := PLAYING\<rparr>)" "timerInv (s\<lparr>grid := newGrid\<rparr>)"
    using ti unfolding timerInv_def by simp_all
  then have "staleHarmless t (resetRound (s\<lparr>gameState := PLAYING\<rparr>))"
    and "newGrid \<noteq> [] \<Longrightarrow> staleHarmless t (resetRound (s\<lparr>grid := newGrid\<rparr>))"
    using g by (simp_all add: r)
  then have "staleHarmless t s1" using s1 by blast
  from run_staleHarmless[OF this assms(4)] have h: "staleHarmless t s2" .
  have B: "t \<in> set (pendingTimeouts s2) \<Longrightarrow>
            (\<exists>s3. step (TimeoutFires t) s2 = Some s3 \<and> ghostsRef s3 = ghostsRef s2)"
    using h frightenedExpiry_idle[of s2] unfolding staleHarmless_def step_def by simp
  show ?thesis using A B by blast
qed

lemma lifeStep_tornDown:
  "lifeStep ev (TornDown s) = Some (TornDown s)
   \<or> (\<exists>t. ev = Happens (TimeoutFires t) \<and> t \<in> set (pendingTimeouts s)
          \<and> lifeStep ev (TornDown s)
              = Some (TornDown ((frightenedExpiry s)\<lparr>pendingTimeouts := removeAll t (pendingTimeouts s)\<rparr>)))"
proof (cases ev)
  case (Happens e)
  then show ?thesis by (cases e) (auto simp: step_def)
next
  case Teardown
  then show ?thesis by simp
qed

lemma lifeRun_quiet:
  "pendingTimeouts s = [] \<Longrightarrow> lifeRun evs (TornDown s) = Some (TornDown s)"
proof (induction evs)
  case Nil
  then show ?case by simp
next
  case (Cons ev evs)
  have "lifeStep ev (TornDown s) = Some (TornDown s)"
    using lifeStep_tornDown[of ev s] Cons.prems by auto
  then show ?case using Cons by simp
qed

lemma lifeRun_tornDown:
  assumes "pendingTimeouts s = [t]"
  shows "lifeRun evs (TornDown s) = Some (TornDown s)
       \<or> lifeRun evs (TornDown s) = Some (TornDown ((frightenedExpiry s)\<lparr>pendingTimeouts := []\<rparr>))"
proof (induction evs)
  case Nil
  then show ?case by simp
next
  case (Cons ev evs)
  from lifeStep_tornDown[of ev s] show ?case
  proof
    assume "lifeStep ev (TornDown s) = Some (TornDown s)"
    then show ?thesis using Cons by simp
  next
    assume "\<exists>u. ev = Happens (TimeoutFires u) \<and> u \<in> set (pendingTimeouts s)
          \<and> lifeStep ev (TornDown s)
              = Some (TornDown ((frightenedExpiry s)\<lparr>pendingTimeouts := removeAll u (pendingTimeouts s)\<rparr>))"
    then have "lifeStep ev (TornDown s) = Some (TornDown ((frightenedExpiry s)\<lparr>pendingTimeouts := []\<rparr>))"
      using assms by auto
    then show ?thesis
      using lifeRun_quiet[of "(frightenedExpiry s)\<lparr>pendingTimeouts := []\<rparr>" evs] by simp
  qed
qed

text \<open>
  Claim C2, as amended. Neither a round reset (\<open>startGame\<close>, or a new grid accepted) nor
  the teardown of the component cancels a pending expiry: pending expiry and handle stay
  as they are. After a reset, whatever happens next, the expiry changes no ghost if it
  fires. After a teardown nothing but the expiry changes the discarded state; when it
  fires it sets every ghost of that state to Scatter.
\<close>

theorem stale_expiry_survives_reset_and_teardown:
  assumes "reachable s" and "t \<in> set (pendingTimeouts s)"
    and "s1 = startGame s \<or> (5 < length newGrid \<and> 5 < length (newGrid ! 0) \<and> s1 = acceptGrid newGrid s)"
    and "run evs s1 = Some s2"
    and "lifeRun levs (TornDown s) = Some l"
  shows "pendingTimeouts s1 = pendingTimeouts s \<and> frightenedTimerRef s1 = frightenedTimerRef s
       \<and> (t \<in> set (pendingTimeouts s2) \<longrightarrow>
            (\<exists>s3. step (TimeoutFires t) s2 = Some s3 \<and> ghostsRef s3 = ghostsRef s2))
       \<and> lifeStep Teardown (Live s) = Some (TornDown s)
       \<and> lifeStep (Happens (TimeoutFires t)) (TornDown s)
           = Some (TornDown (s\<lparr>ghostsRef := map (\<lambda>g. g\<lparr>mode := SCATTER\<rparr>) (ghostsRef s),
                               pendingTimeouts := []\<rparr>))
       \<and> (l = TornDown s
          \<or> l = TornDown (s\<lparr>ghostsRef := map (\<lambda>g. g\<lparr>mode := SCATTER\<rparr>) (ghostsRef s),
                             pendingTimeouts := []\<rparr>))"
proof -
  have ti: "timerInv s" using reachable_gameInv[OF assms(1)] unfolding gameInv_def by simp
  have p: "pendingTimeouts s = [t]" using timerInv_pending_cases[OF ti] assms(2) by auto
  note R = stale_expiry_after_reset_changes_no_ghost[OF assms(1,2,3,4)]
  have fe: "(frightenedExpiry s)\<lparr>pendingTimeouts := []\<rparr>
          = s\<lparr>ghostsRef := map (\<lambda>g. g\<lparr>mode := SCATTER\<rparr>) (ghostsRef s), pendingTimeouts := []\<rparr>"
    unfolding frightenedExpiry_def by simp
  have F: "lifeStep (Happens (TimeoutFires t)) (TornDown s)
           = Some (TornDown (s\<lparr>ghostsRef := map (\<lambda>g. g\<lparr>mode := SCATTER\<rparr>) (ghostsRef s),
                               pendingTimeouts := []\<rparr>))"
    using p fe by (simp add: step_def)
  have L: "l = TornDown s
          \<or> l = TornDown (s\<lparr>ghostsRef := map (\<lambda>g. g\<lparr>mode := SCATTER\<rparr>) (ghostsRef s),
                             pendingTimeouts := []\<rparr>)"
    using lifeRun_tornDown[OF p, of levs] assms(5) fe by auto
  show ?thesis using R F L by simp
qed

text \<open>
  Claim C4. After a level load the gate anchor should come from the new grid alone.
  \<open>initLevel\<close> assigns \<open>gateRef\<close> only at a gate tile and never clears it: the
  corridor level has no gate tile, and after it is loaded over the default level the
  anchor is still the last gate tile of the default level, at (276, 276).
\<close>

theorem gate_survives_level_load:
  "centersOf CHR ''-'' corridorLevel = []
   \<and> 5 < length corridorLevel \<and> 5 < length (corridorLevel ! 0)
   \<and> gateRef (acceptGrid corridorLevel mounted) = Some \<lparr>x = 276, y = 276\<rparr>
   \<and> pelletsRef (acceptGrid corridorLevel mounted) = [\<lparr>x = 84, y = 108\<rparr>, \<lparr>x = 84, y = 132\<rparr>]"
  by code_simp

subsection \<open>Runs of the program\<close>

lemma run_reachable:
  "reachable s \<Longrightarrow> \<forall>ev \<in> set evs. validEvent ev \<Longrightarrow> run evs s = Some s' \<Longrightarrow> reachable s'"
  by (induction evs arbitrary: s) (auto split: option.splits intro: reachable_step)

lemma steady_valid: "validEvent (Frame steadyRand)"
  by (simp add: validEvent_def validRand_def steadyRand_def)

lemma twoPowerTrace_valid: "\<forall>ev \<in> set twoPowerTrace. validEvent ev"
  using steady_valid by (auto simp: twoPowerTrace_def validEvent_def)

lemma powerTrace_valid: "\<forall>ev \<in> set powerTrace. validEvent ev"
  using steady_valid by (auto simp: powerTrace_def validEvent_def)

text \<open>
  Claim C1. The lives count should never go below 0. On the corridor level the four
  ghosts walk down the corridor on top of each other and reach the waiting player in
  frame 15. The loop over the ghosts goes on after a life is lost and after the game is
  over: the four iterations of that one frame take the lives from 3 to -1.
\<close>

theorem lives_negative_after_stacked_collisions:
  "map_option (\<lambda>s. (livesRef s, gameState s)) (run corridorTrace mounted) = Some (- 1, GAMEOVER)"
  by code_simp

text \<open>
  Claim C5. After a life is lost with lives left, every ghost should be back at its spawn
  of the level load. The dead-end level has no ghost tile: the level load puts the four
  ghosts two tiles above the player's spawn, at (84, 36). In frame 27 the first ghost
  reaches the player, who waits one tile below its spawn; lives go from 3 to 2 and
  \<open>initLevelPosOnly\<close> puts all four ghosts on the player's spawn, at (84, 84).
\<close>

theorem life_loss_reset_misplaces_ghosts:
  "map_option (\<lambda>s. (livesRef s, map (\<lambda>g. (x g, y g)) (ghostsRef s))) (run (take 3 deadEndTrace) mounted)
     = Some (3, [(84, 36), (84, 36), (84, 36), (84, 36)])
   \<and> map_option (\<lambda>s. (livesRef s, map (\<lambda>g. (x g, y g)) (ghostsRef s))) (run deadEndTrace mounted)
     = Some (2, [(84, 84), (84, 84), (84, 84), (84, 84)])"
  by code_simp

text \<open>
  Claim C2 as stated fails. On the power level the player eats the power pellet in frame
  5, which leaves expiry 1 pending. If the game is paused and started again, expiry 1 is
  still pending after this round reset. If instead the component is torn down, expiry 1
  is still pending, and when it fires it turns the four Frightened ghosts of the
  discarded state to Scatter.
\<close>

theorem reset_and_teardown_keep_pending_expiry:
  "map_option pendingTimeouts (run (powerTrace @ [PauseGame, StartGame]) mounted) = Some [1]
   \<and> map_option lifeView (lifeRun (map Happens powerTrace @ [Teardown]) (Live mounted))
       = Some (True, [1], [FRIGHTENED, FRIGHTENED, FRIGHTENED, FRIGHTENED])
   \<and> map_option lifeView
        (lifeRun (map Happens powerTrace @ [Teardown, Happens (TimeoutFires 1)]) (Live mounted))
       = Some (True, [], [SCATTER, SCATTER, SCATTER, SCATTER])"
  by code_simp

text \<open>
  Claim C7 as stated fails for the whole step: the player at the centre (84, 84) of its
  spawn tile with the request DOWN ends the step at (84, 87), not on the centre.
\<close>

theorem step_ends_off_centre:
  "isCentered 84
   \<and> canMove corridorLevel 84 84 DOWN False = Some True
   \<and> moveEntity corridorLevel Map.empty \<lparr>x = 84, y = 84, dir = NONE, nextDir = DOWN, speed = 3\<rparr> False
       = Some \<lparr>x = 84, y = 87, dir = DOWN, nextDir = NONE, speed = 3\<rparr>"
  by code_simp

text \<open>
  Claim C8 as stated fails for an agent that is not displaced: on the ragged level the
  player spawns at x = 372, more than half a tile beyond the right edge (156), has no
  heading, and after the movement step of the first frame is still at x = 372.
\<close>

theorem idle_agent_beyond_edge_stays:
  "map_option (x \<circ> pacmanRef) (run raggedTrace mounted) = Some 372
   \<and> of_nat (length (raggedLevel ! 0)) * TILE_SIZE + TILE_SIZE / 2 = (156 :: rat)"
  by code_simp

subsection \<open>Instances of the theorems\<close>

text \<open>The player within tolerance of the centre of its spawn tile turns down.\<close>

theorem turn_snaps_then_advances_witness:
  "corridorLevel \<noteq> [] \<and> isCentered 84 \<and> DOWN \<noteq> NONE
   \<and> moveEntity corridorLevel Map.empty \<lparr>x = 85, y = 83, dir = NONE, nextDir = DOWN, speed = 3\<rparr> False
       = Some \<lparr>x = 84, y = 87, dir = DOWN, nextDir = NONE, speed = 3\<rparr>"
proof -
  let ?e = "\<lparr>x = 85, y = 83, dir = NONE, nextDir = DOWN, speed = 3\<rparr> :: Entity"
  have g: "corridorLevel \<noteq> []" by (simp add: corridorLevel_def)
  have c: "isCentered 84" "isCentered (x ?e)" "isCentered (y ?e)" by code_simp+
  have n: "nextDir ?e \<noteq> NONE" by simp
  have ok: "canMove corridorLevel 85 83 DOWN False = Some True" by code_simp
  have w: "length (corridorLevel ! 0) = 7" by (simp add: corridorLevel_def)
  have m: "moveEntity corridorLevel Map.empty ?e False
       = Some \<lparr>x = 84, y = 87, dir = DOWN, nextDir = NONE, speed = 3\<rparr>" by code_simp
  from turn_snaps_then_advances[OF g c(2,3) n, of False Map.empty]
  have "\<exists>e'. moveEntity corridorLevel Map.empty ?e False = Some e'" by blast
  then show ?thesis using g c(1) m by simp
qed

text \<open>An entity heading left leaves the map and comes back at the right; a step left from the first column.\<close>

theorem displacing_step_relocates_witness:
  "corridorLevel \<noteq> []
   \<and> moveEntity corridorLevel Map.empty \<lparr>x = - 11, y = 84, dir = LEFT, nextDir = NONE, speed = 3\<rparr> False
       = Some \<lparr>x = 180, y = 84, dir = LEFT, nextDir = NONE, speed = 3\<rparr>
   \<and> canMove corridorLevel 12 84 LEFT False = Some True"
proof -
  let ?e = "\<lparr>x = - 11, y = 84, dir = LEFT, nextDir = NONE, speed = 3\<rparr> :: Entity"
  have g: "corridorLevel \<noteq> []" by (simp add: corridorLevel_def)
  have k: "getGridPos 12 = 0" by code_simp
  have w: "length (corridorLevel ! 0) = 7" by (simp add: corridorLevel_def)
  have m: "moveEntity corridorLevel Map.empty ?e False
       = Some \<lparr>x = 180, y = 84, dir = LEFT, nextDir = NONE, speed = 3\<rparr>" by code_simp
  note th = displacing_step_relocates[OF g, of 12 LEFT 84 False ?e Map.empty]
  from th[THEN conjunct1] have "canMove corridorLevel 12 84 LEFT False = Some True"
    using k w by (simp add: Let_def)
  then show ?thesis using g m by simp
qed

text \<open>A ghost heading down in the corridor, with a free tile above and below.\<close>

theorem ghost_reverses_only_at_dead_end_witness:
  "corridorLevel \<noteq> [] \<and> isCentered 84 \<and> isCentered 60 \<and> validRand (steadyRand 0)
   \<and> (\<exists>g'. decideGhost corridorLevel \<lparr>x = 84, y = 84\<rparr> (steadyRand 0) (newGhost \<lparr>x = 84, y = 60\<rparr> DOWN 0) = Some g'
           \<and> dir g' \<noteq> UP)"
proof -
  let ?g = "newGhost \<lparr>x = 84, y = 60\<rparr> DOWN 0"
  have g: "corridorLevel \<noteq> []" by (simp add: corridorLevel_def)
  have c: "isCentered (x ?g)" "isCentered (y ?g)" by code_simp+
  have c': "isCentered 84" "isCentered 60" by code_simp+
  have r: "validRand (steadyRand 0)" by (simp add: validRand_def steadyRand_def)
  have v: "filterThrowing (\<lambda>d. canMove corridorLevel (x ?g) (y ?g) d True) possibleDirs = Some [UP, DOWN]"
    by code_simp
  have d: "dir ?g = DOWN" by (simp add: newGhost_def)
  from ghost_reverses_only_at_dead_end[OF g c r, of "\<lparr>x = 84, y = 84\<rparr>"] v d
  have "\<exists>g'. decideGhost corridorLevel \<lparr>x = 84, y = 84\<rparr> (steadyRand 0) ?g = Some g' \<and> dir g' \<noteq> UP"
    by auto
  then show ?thesis using g c' r by simp
qed

text \<open>The last pellet is taken while a ghost overlaps: the win is reported, no life is lost.\<close>

theorem win_iff_collections_empty_witness:
  "snd (checkCollisions lastPelletState) = [OnScoreUpdate 90, OnGameOver True]
   \<and> fst (checkCollisions lastPelletState) = fst (consume lastPelletState)
   \<and> livesRef (fst (checkCollisions lastPelletState)) = 3"
proof -
  have c: "snd (checkCollisions lastPelletState) = [OnScoreUpdate 90, OnGameOver True]" by code_simp
  have l: "livesRef lastPelletState = 3" by (simp add: lastPelletState_def)
  from win_iff_collections_empty[of lastPelletState] c l show ?thesis
    by (auto split: prod.splits)
qed

text \<open>The mounted component.\<close>

theorem ghost_modes_scatter_or_frightened_witness:
  "reachable mounted
   \<and> list_all (\<lambda>g. mode g = SCATTER \<or> mode g = FRIGHTENED) (ghostsRef mounted)"
  using ghost_modes_scatter_or_frightened[OF reachable_mounted] reachable_mounted
  unfolding list_all_iff by blast

text \<open>The second power pellet is eaten while the expiry of the first is pending.\<close>

theorem power_pellet_restarts_single_timer_witness:
  "\<exists>s s'. run twoPowerTrace mounted = Some s \<and> reachable s \<and> gameState s = PLAYING
         \<and> pendingTimeouts s = [1] \<and> step (Frame steadyRand) s = Some s'
         \<and> powerPelletsRef s' = [] \<and> frightenedTimerRef s' = Some 2 \<and> pendingTimeouts s' = [2]"
proof -
  let ?PAC = "\<lparr>x = 75, y = 84, dir = RIGHT, nextDir = NONE, speed = 3\<rparr> :: Entity"
  have "map_option (\<lambda>s. (gameState s, pendingTimeouts s, nextTimeout s, powerPelletsRef s,
                         moveEntity (grid s) Map.empty (pacmanRef s) False))
          (run twoPowerTrace mounted)
        = Some (PLAYING, [1], 2, [\<lparr>x = 84, y = 84\<rparr>], Some ?PAC)"
    by code_simp
  then obtain s where s: "run twoPowerTrace mounted = Some s"
    and f: "gameState s = PLAYING" "pendingTimeouts s = [1]" "nextTimeout s = 2"
      "powerPelletsRef s = [\<lparr>x = 84, y = 84\<rparr>]"
      "moveEntity (grid s) Map.empty (pacmanRef s) False = Some ?PAC"
    by auto
  have r: "reachable s" by (rule run_reachable[OF reachable_mounted twoPowerTrace_valid s])
  note th = power_pellet_restarts_single_timer[OF r]
  from th f(1) obtain pac gs s' where p: "moveEntity (grid s) Map.empty (pacmanRef s) False = Some pac"
    and st: "step (Frame steadyRand) s = Some s'"
    and eq: "s' = (fst (checkCollisions (s\<lparr>pacmanRef := pac, ghostsRef := gs\<rparr>)))\<lparr>gameState := gameState s'\<rparr>"
    by blast
  have pac: "pac = ?PAC" using p f(5) by simp
  obtain sc calls where k: "checkCollisions (s\<lparr>pacmanRef := pac, ghostsRef := gs\<rparr>) = (sc, calls)"
    by fastforce
  have n: "length (filter (\<lambda>p. hypotLess (x p - x pac) (y p - y pac) (TILE_SIZE / 2)) (powerPelletsRef s)) = 1"
    "filter (\<lambda>p. \<not> hypotLess (x p - x pac) (y p - y pac) (TILE_SIZE / 2)) (powerPelletsRef s) = []"
    unfolding pac f(4) by (simp_all add: hypotLess_def TILE_SIZE_def)
  note B = th[THEN conjunct2, THEN conjunct1, THEN spec, THEN spec, of pac gs, unfolded k prod.case Let_def n]
  have "powerPelletsRef sc = [] \<and> frightenedTimerRef sc = Some 2 \<and> pendingTimeouts sc = [2]"
    using B f(3) by simp
  moreover have "powerPelletsRef s' = powerPelletsRef sc" "frightenedTimerRef s' = frightenedTimerRef sc"
    "pendingTimeouts s' = pendingTimeouts sc"
    by (subst eq, simp add: k)+
  ultimately show ?thesis using s r f(1,2) st by auto
qed

text \<open>The power level after the power pellet is eaten: started again, or torn down.\<close>

theorem stale_expiry_survives_reset_and_teardown_witness:
  "\<exists>s. run powerTrace mounted = Some s \<and> reachable s \<and> 1 \<in> set (pendingTimeouts s)
       \<and> pendingTimeouts (startGame s) = pendingTimeouts s
       \<and> (\<exists>s3. step (TimeoutFires 1) (startGame s) = Some s3 \<and> ghostsRef s3 = ghostsRef (startGame s))
       \<and> lifeRun [Happens (TimeoutFires 1)] (TornDown s)
           = Some (TornDown (s\<lparr>ghostsRef := map (\<lambda>g. g\<lparr>mode := SCATTER\<rparr>) (ghostsRef s),
                               pendingTimeouts := []\<rparr>))"
proof -
  have "map_option pendingTimeouts (run powerTrace mounted) = Some [1]" by code_simp
  then obtain s where s: "run powerTrace mounted = Some s" and p: "pendingTimeouts s = [1]" by auto
  have r: "reachable s" by (rule run_reachable[OF reachable_mounted powerTrace_valid s])
  have t: "1 \<in> set (pendingTimeouts s)" using p by simp
  have e: "run [] (startGame s) = Some (startGame s)" by simp
  have l: "lifeRun [] (TornDown s) = Some (TornDown s)" by simp
  from stale_expiry_survives_reset_and_teardown[OF r t _ e l, of undefined] t s r
  show ?thesis by auto
qed

end
